theory Spec2Isabelle
  imports Main "HOL-Library.Multiset"
begin

section \<open>Exceptions of the vFXT library\<close>

text \<open>
  The exception classes of \<^verbatim>\<open>vFXT.service\<close> that \<^verbatim>\<open>cluster.py\<close> raises, with the
  two Python built-ins whose difference matters to the handlers of the file:
  \<^verbatim>\<open>KeyboardInterrupt\<close> is not a subclass of \<^verbatim>\<open>Exception\<close>, every other constructor is.
\<close>

datatype vfxt_error =
    vFXTConfigurationException string
  | vFXTConnectionFailure string
  | vFXTStatusFailure string
  | vFXTServiceFailure "(string \<times> vfxt_error) list"
  | vFXTCreateFailure vfxt_error
  | KeyboardInterrupt
  | PyException string

text \<open>What a handler \<^verbatim>\<open>except Exception\<close> catches.\<close>

definition is_Exception :: "vfxt_error \<Rightarrow> bool" where
  "is_Exception e = (e \<noteq> KeyboardInterrupt)"

text \<open>
  The polling loops of the file wait on a remote system and need not end. A loop is run
  against the finite record of what its polls observed: \<open>Returned n\<close> and \<open>Raised n e\<close>
  say that it returned, or raised \<open>e\<close>, at its \<open>n\<close>-th poll; \<open>Pending\<close> says that it
  was still waiting when the record ran out.
\<close>

datatype wait_result = Returned nat | Raised nat vfxt_error | Pending

section \<open>Python text helpers\<close>

text \<open>\<^verbatim>\<open>str\<close> of an integer: its decimal digits, with a minus sign when negative.\<close>

definition digit_char :: "nat \<Rightarrow> char" where
  "digit_char d = ''0123456789'' ! d"

function str_nat :: "nat \<Rightarrow> string" where
  "str_nat n = (if n < 10 then [digit_char n] else str_nat (n div 10) @ [digit_char (n mod 10)])"
  by pat_completeness auto
termination
  by (relation "measure id") auto

definition str_int :: "int \<Rightarrow> string" where
  "str_int i = (if i < 0 then CHR ''-'' # str_nat (nat (- i)) else str_nat (nat i))"

text \<open>\<^verbatim>\<open>sub in s\<close> for two strings: \<open>sub\<close> occurs in \<open>s\<close> as a contiguous piece.\<close>

fun contains :: "string \<Rightarrow> string \<Rightarrow> bool" where
  "contains sub [] = (sub = [])"
| "contains sub (c # cs) = (take (length sub) (c # cs) = sub \<or> contains sub cs)"

text \<open>
  How \<^verbatim>\<open>str.format\<close> shows a list of strings: each in single quotes, separated by a comma
  and a space, in brackets (strings without quotes, backslashes or control characters).
\<close>

fun join_with :: "string \<Rightarrow> string list \<Rightarrow> string" where
  "join_with sep [] = []"
| "join_with sep [x] = x"
| "join_with sep (x # y # zs) = x @ sep @ join_with sep (y # zs)"

definition repr_str_list :: "string list \<Rightarrow> string" where
  "repr_str_list xs =
     ''['' @ join_with '', '' (map (\<lambda>s. [CHR 0x27] @ s @ [CHR 0x27]) xs) @ '']''"

section \<open>Cluster name validation\<close>

text \<open>
  Regular expressions as far as \<^verbatim>\<open>valid_cluster_name\<close> needs them: character classes
  given by inclusive ranges, concatenation, alternative, the empty word and iteration.
  \<^verbatim>\<open>(r)?\<close> is \<open>Alt r One\<close>.
\<close>

datatype regex =
    Zero
  | One
  | Chars "(char \<times> char) list"
  | Alt regex regex
  | Seq regex regex
  | Star regex

definition in_class :: "char \<Rightarrow> (char \<times> char) list \<Rightarrow> bool" where
  "in_class c rs =
     list_ex (\<lambda>(lo, hi). (of_char lo :: nat) \<le> of_char c \<and> (of_char c :: nat) \<le> of_char hi) rs"

fun nullable :: "regex \<Rightarrow> bool" where
  "nullable Zero = False"
| "nullable One = True"
| "nullable (Chars rs) = False"
| "nullable (Alt r s) = (nullable r \<or> nullable s)"
| "nullable (Seq r s) = (nullable r \<and> nullable s)"
| "nullable (Star r) = True"

fun deriv :: "char \<Rightarrow> regex \<Rightarrow> regex" where
  "deriv c Zero = Zero"
| "deriv c One = Zero"
| "deriv c (Chars rs) = (if in_class c rs then One else Zero)"
| "deriv c (Alt r s) = Alt (deriv c r) (deriv c s)"
| "deriv c (Seq r s) =
     (if nullable r then Alt (Seq (deriv c r) s) (deriv c s) else Seq (deriv c r) s)"
| "deriv c (Star r) = Seq (deriv c r) (Star r)"

text \<open>The whole word is in the language of the expression.\<close>

fun matches :: "regex \<Rightarrow> string \<Rightarrow> bool" where
  "matches r [] = nullable r"
| "matches r (c # cs) = matches (deriv c r) cs"

definition newline :: char where
  "newline = CHR 0x0A"

text \<open>
  \<^verbatim>\<open>re.search('^' + r + '$', s)\<close> of Python's \<^verbatim>\<open>re\<close> module, without flags, as a truth value.
  \<^verbatim>\<open>^\<close> pins the match to the start of the string; \<^verbatim>\<open>$\<close> matches at the end of the
  string and also just before a newline that is the last character of the string.
\<close>

definition re_search_anchored :: "regex \<Rightarrow> string \<Rightarrow> bool" where
  "re_search_anchored r s =
     (matches r s \<or> (s \<noteq> [] \<and> last s = newline \<and> matches r (butlast s)))"

text \<open>The pattern \<^verbatim>\<open>[a-z]([-a-z0-9]*[a-z0-9])?\<close> between the anchors.\<close>

definition cluster_name_re :: regex where
  "cluster_name_re =
     Seq (Chars [(CHR ''a'', CHR ''z'')])
         (Alt (Seq (Star (Chars [(CHR ''-'', CHR ''-''), (CHR ''a'', CHR ''z''), (CHR ''0'', CHR ''9'')]))
                   (Chars [(CHR ''a'', CHR ''z''), (CHR ''0'', CHR ''9'')]))
              One)"

text \<open>\<^verbatim>\<open>Cluster.valid_cluster_name\<close> (cluster.py, lines 1640-1651).\<close>

definition valid_cluster_name :: "string \<Rightarrow> bool" where
  "valid_cluster_name name =
     (let name_len = length name in
      if name_len < 1 \<or> name_len > 128 then False
      else if re_search_anchored cluster_name_re name then True
      else False)"

text \<open>
  The language of a regular expression, for comparison with the matcher above: the words
  of a concatenation are a word of the first language followed by a word of the second,
  and the words of an iteration are those of some power.
\<close>

definition conc :: "string set \<Rightarrow> string set \<Rightarrow> string set" where
  "conc A B = {xs @ ys |xs ys. xs \<in> A \<and> ys \<in> B}"

primrec pow :: "string set \<Rightarrow> nat \<Rightarrow> string set" where
  "pow A 0 = {[]}"
| "pow A (Suc n) = conc A (pow A n)"

definition star :: "string set \<Rightarrow> string set" where
  "star A = (\<Union>n. pow A n)"

fun lang :: "regex \<Rightarrow> string set" where
  "lang Zero = {}"
| "lang One = {[]}"
| "lang (Chars rs) = {[c] |c. in_class c rs}"
| "lang (Alt r s) = lang r \<union> lang s"
| "lang (Seq r s) = conc (lang r) (lang s)"
| "lang (Star r) = star (lang r)"

text \<open>
  Name validity as the specification words it: the length is between 1 and 128 and the
  whole name is a word of the pattern.
\<close>

definition pattern_name :: "string \<Rightarrow> bool" where
  "pattern_name s = (1 \<le> length s \<and> length s \<le> 128 \<and> s \<in> lang cluster_name_re)"

section \<open>Address arithmetic of add-nodes\<close>

text \<open>
  Lines 674-682 of \<^verbatim>\<open>Cluster.add_nodes\<close>. Python integers are unbounded, so every
  quantity is an \<open>int\<close> (\<open>cnt\<close> is the argument \<^verbatim>\<open>count\<close>); \<open>existing_vserver\<close> and \<open>existing_cluster\<close> are the
  lengths of the in-use address lists.
\<close>

record address_needs =
  need_vserver :: int
  need_cluster :: int
  need_private :: int
  ip_count :: int

definition compute_needs :: "int \<Rightarrow> int \<Rightarrow> int \<Rightarrow> int \<Rightarrow> int \<Rightarrow> int \<Rightarrow> bool \<Rightarrow> address_needs" where
  "compute_needs node_count cnt cluster_ips_per_node vserver_count
       existing_vserver existing_cluster allocate_private =
     (let need_vserver0 = ((node_count + cnt) * vserver_count) - existing_vserver;
          need_cluster0 = ((node_count + cnt) * cluster_ips_per_node) - existing_cluster;
          need_cluster1 = (if need_cluster0 > 0 then need_cluster0 else 0);
          need_vserver1 = (if need_vserver0 > 0 then need_vserver0 else 0);
          need_private1 = (if allocate_private then cnt else 0)
      in \<lparr> need_vserver = need_vserver1, need_cluster = need_cluster1,
           need_private = need_private1,
           ip_count = need_vserver1 + need_cluster1 + need_private1 \<rparr>)"

section \<open>Health check\<close>

text \<open>
  \<^verbatim>\<open>Cluster.wait_for_healthcheck\<close> (lines 288-340). One poll of the loop makes the call
  \<^verbatim>\<open>cluster.maxActiveAlertSeverity()\<close>, which answers with a dictionary or raises, and
  reads the clock once, as \<^verbatim>\<open>int(time.time())\<close>, in either branch of the test.
\<close>

record hc_poll =
  alert_rpc :: "vfxt_error + (string \<times> string) list"
  clock :: int

text \<open>An entry of \<^verbatim>\<open>alert.conditions()\<close>: its name and its severity.\<close>

record condition =
  cond_name :: string
  severity :: string

definition acceptable_states :: "string \<Rightarrow> string list" where
  "acceptable_states state =
     [state, ''green''] @ (if state = ''red'' then [''yellow''] else [])"

text \<open>The dictionary the poll works with: empty when the call raised.\<close>

definition alertstats :: "hc_poll \<Rightarrow> (string \<times> string) list" where
  "alertstats p = (case alert_rpc p of Inl e \<Rightarrow> [] | Inr d \<Rightarrow> d)"

text \<open>
  The test of line 320:
  \<^verbatim>\<open>'maxCondition' in alertstats and alertstats['maxCondition'] in acceptable_states\<close>.
\<close>

definition holds :: "string \<Rightarrow> hc_poll \<Rightarrow> bool" where
  "holds state p =
     (case map_of (alertstats p) ''maxCondition'' of
        None \<Rightarrow> False
      | Some c \<Rightarrow> c \<in> set (acceptable_states state))"

text \<open>An exception of the call that \<^verbatim>\<open>except Exception\<close> lets through.\<close>

definition uncaught :: "vfxt_error + 'a \<Rightarrow> vfxt_error option" where
  "uncaught r = (case r of Inl e \<Rightarrow> (if is_Exception e then None else Some e) | Inr d \<Rightarrow> None)"

text \<open>
  Lines 333-339: the retries are used up. The diagnostic query may itself raise; otherwise
  the names of the conditions whose severity is not the requested state go into the
  message.
\<close>

definition healthcheck_failure :: "string \<Rightarrow> vfxt_error + condition list \<Rightarrow> vfxt_error" where
  "healthcheck_failure state conditions =
     (case conditions of
        Inl e \<Rightarrow> e
      | Inr cs \<Rightarrow>
          (let alert_codes = map cond_name (filter (\<lambda>c. severity c \<noteq> state) cs) in
           if alert_codes \<noteq> []
           then vFXTStatusFailure
                  (''Healthcheck for state '' @ state @ '' failed: '' @ repr_str_list alert_codes)
           else vFXTStatusFailure (''Healthcheck for state '' @ state @ '' failed'')))"

text \<open>
  The loop of lines 313-340, with \<open>n\<close> the number of polls made so far. \<open>retries\<close> is
  decremented after every poll that did not end the wait and compared with 0 afterwards, so
  a call with \<open>retries \<le> 0\<close> never runs out of retries.
\<close>

fun healthcheck_loop ::
  "string \<Rightarrow> int \<Rightarrow> (vfxt_error + condition list) \<Rightarrow> int \<Rightarrow> int \<Rightarrow> nat \<Rightarrow> hc_poll list
     \<Rightarrow> wait_result" where
  "healthcheck_loop state duration conditions retries start_time n [] = Pending"
| "healthcheck_loop state duration conditions retries start_time n (p # ps) =
     (case uncaught (alert_rpc p) of
        Some e \<Rightarrow> Raised (Suc n) e
      | None \<Rightarrow>
          (let observed = (if holds state p then clock p - start_time else 0) in
           if holds state p \<and> observed \<ge> duration then Returned (Suc n)
           else
             (let start_time' = (if holds state p then start_time else clock p);
                  retries' = retries - 1
              in if retries' = 0 then Raised (Suc n) (healthcheck_failure state conditions)
                 else healthcheck_loop state duration conditions retries' start_time' (Suc n) ps)))"

text \<open>
  The whole call: \<open>connect\<close> is the outcome of the first \<^verbatim>\<open>self.xmlrpc(conn_retries)\<close>,
  \<open>t0\<close> the clock read before the loop.
\<close>

definition wait_for_healthcheck ::
  "string \<Rightarrow> int \<Rightarrow> int \<Rightarrow> vfxt_error option \<Rightarrow> int \<Rightarrow> (vfxt_error + condition list)
     \<Rightarrow> hc_poll list \<Rightarrow> wait_result" where
  "wait_for_healthcheck state retries duration connect t0 conditions polls =
     (case connect of
        Some e \<Rightarrow> Raised 0 e
      | None \<Rightarrow> healthcheck_loop state duration conditions retries t0 0 polls)"

text \<open>
  The start of the current holding period after the polls \<open>ps\<close>: the clock of the most
  recent poll at which the condition did not hold, and \<open>t0\<close> when it held at all of them.
\<close>

definition last_reset :: "string \<Rightarrow> int \<Rightarrow> hc_poll list \<Rightarrow> int" where
  "last_reset state t0 ps =
     (case filter (\<lambda>p. \<not> holds state p) (rev ps) of [] \<Rightarrow> t0 | p # _ \<Rightarrow> clock p)"

text \<open>
  The reading of the durable condition by polls: the \<open>d\<close> polls that end with the
  \<open>n\<close>-th all saw the condition hold.
\<close>

definition consecutive_holding :: "string \<Rightarrow> nat \<Rightarrow> hc_poll list \<Rightarrow> nat \<Rightarrow> bool" where
  "consecutive_holding state d ps n =
     (d \<le> n \<and> n \<le> length ps \<and> list_all (holds state) (take d (drop (n - d) ps)))"

text \<open>A poll that answered with the given \<^verbatim>\<open>maxCondition\<close> at the given second.\<close>

definition reported :: "string \<Rightarrow> int \<Rightarrow> hc_poll" where
  "reported c t = \<lparr> alert_rpc = Inr [(''maxCondition'', c)], clock = t \<rparr>"

text \<open>The call of the poll answered, and its \<^verbatim>\<open>maxCondition\<close> is \<open>c\<close>.\<close>

definition reports :: "string \<Rightarrow> hc_poll \<Rightarrow> bool" where
  "reports c p =
     (case alert_rpc p of Inl e \<Rightarrow> False | Inr d \<Rightarrow> map_of d ''maxCondition'' = Some c)"

text \<open>The order of the severities: red is worst, green is best.\<close>

fun severity_rank :: "string \<Rightarrow> nat" where
  "severity_rank s = (if s = ''red'' then 0 else if s = ''yellow'' then 1 else 2)"

section \<open>Waiting for nodes to join\<close>

text \<open>
  \<^verbatim>\<open>Cluster.wait_for_nodes_to_join\<close> (lines 1368-1422). One pass of the loop asks for the
  node list, then for the unconfigured nodes (address and status of each), reads the clock
  once, and on every tenth retry opens a connection to log the conditions.
\<close>

record join_poll =
  node_list :: "vfxt_error + nat"
  unconfigured :: "vfxt_error + (string \<times> string) list"
  jclock :: int
  log_conn :: "vfxt_error option"

text \<open>
  \<^verbatim>\<open>int(retries * 1.5)\<close> for an integer \<open>retries\<close>: the product, cut off towards zero
  (exact as long as the product is within the 53 bits of a float).
\<close>

definition int_times_1_5 :: "int \<Rightarrow> int" where
  "int_times_1_5 r = (if 0 \<le> r then (3 * r) div 2 else - ((3 * (- r)) div 2))"

text \<open>Lines 1384-1388: a failed listing counts as one node found.\<close>

definition found_nodes :: "join_poll \<Rightarrow> int" where
  "found_nodes p = (case node_list p of Inl e \<Rightarrow> 1 | Inr k \<Rightarrow> int k)"

text \<open>
  Lines 1400-1401: some node of this cluster that has not joined reports a status that
  mentions its image. A failed query gives no such status.
\<close>

definition image_upgrading :: "string list \<Rightarrow> join_poll \<Rightarrow> bool" where
  "image_upgrading node_addresses p =
     (case unconfigured p of
        Inl e \<Rightarrow> False
      | Inr us \<Rightarrow>
          (let unjoined_status = map snd (filter (\<lambda>u. fst u \<in> set node_addresses) us)
           in list_ex (contains ''image'') unjoined_status))"

definition join_timeout :: "int \<Rightarrow> join_poll \<Rightarrow> vfxt_error" where
  "join_timeout expected p =
     vFXTConfigurationException
       (''Timed out waiting for '' @ str_int (expected - found_nodes p) @ '' node(s) to join.'')"

text \<open>
  One pass of the loop from the counter \<open>retries\<close> and the start time \<open>start_time\<close>:
  it goes on with a new counter and start time, or ends the wait, normally (\<open>Finish None\<close>)
  or with an exception.
\<close>

datatype join_step_result = Continue int int | Finish "vfxt_error option"

definition join_step :: "int \<Rightarrow> string list \<Rightarrow> int \<Rightarrow> int \<Rightarrow> join_poll \<Rightarrow> join_step_result" where
  "join_step expected node_addresses retries start_time p =
     (case uncaught (node_list p) of
        Some e \<Rightarrow> Finish (Some e)
      | None \<Rightarrow>
          if expected = found_nodes p then Finish None
          else
            (case uncaught (unconfigured p) of
               Some e \<Rightarrow> Finish (Some e)
             | None \<Rightarrow>
                 if image_upgrading node_addresses p then Continue retries (jclock p)
                 else
                   (let duration = jclock p - start_time;
                        taking_too_long = (duration > int_times_1_5 retries)
                    in if retries = 0 \<or> taking_too_long
                       then Finish (Some (join_timeout expected p))
                       else
                         (let retries' = retries - 1 in
                          if retries' mod 10 = 0
                          then (case log_conn p of
                                  Some e \<Rightarrow> Finish (Some e)
                                | None \<Rightarrow> Continue retries' start_time)
                          else Continue retries' start_time))))"

fun join_loop ::
  "int \<Rightarrow> string list \<Rightarrow> int \<Rightarrow> int \<Rightarrow> nat \<Rightarrow> join_poll list \<Rightarrow> wait_result" where
  "join_loop expected node_addresses retries start_time n [] = Pending"
| "join_loop expected node_addresses retries start_time n (p # ps) =
     (case join_step expected node_addresses retries start_time p of
        Continue retries' start_time' \<Rightarrow>
          join_loop expected node_addresses retries' start_time' (Suc n) ps
      | Finish None \<Rightarrow> Returned (Suc n)
      | Finish (Some e) \<Rightarrow> Raised (Suc n) e)"

text \<open>
  The whole call: \<open>expected\<close> is \<^verbatim>\<open>len(self.nodes)\<close>, \<open>initial\<close> the outcome of the first
  \<^verbatim>\<open>node.list()\<close> (outside every handler), \<open>t0\<close> the clock read before the loop.
\<close>

definition wait_for_nodes_to_join ::
  "int \<Rightarrow> string list \<Rightarrow> int \<Rightarrow> (vfxt_error + nat) \<Rightarrow> int \<Rightarrow> join_poll list \<Rightarrow> wait_result" where
  "wait_for_nodes_to_join expected node_addresses retries initial t0 polls =
     (case initial of
        Inl e \<Rightarrow> Raised 0 e
      | Inr k \<Rightarrow>
          if expected > int k then join_loop expected node_addresses retries t0 0 polls
          else Returned 0)"

text \<open>
  The counter and the start time with which the loop goes into its next pass after the
  passes \<open>ps\<close>, when none of them ended the wait.
\<close>

fun join_state ::
  "int \<Rightarrow> string list \<Rightarrow> int \<Rightarrow> int \<Rightarrow> join_poll list \<Rightarrow> (int \<times> int) option" where
  "join_state expected node_addresses retries start_time [] = Some (retries, start_time)"
| "join_state expected node_addresses retries start_time (p # ps) =
     (case join_step expected node_addresses retries start_time p of
        Continue retries' start_time' \<Rightarrow> join_state expected node_addresses retries' start_time' ps
      | Finish r \<Rightarrow> None)"

text \<open>
  The clock of the most recent pass that saw an image upgrade, and \<open>t0\<close> when none did.
\<close>

definition image_reset :: "string list \<Rightarrow> int \<Rightarrow> join_poll list \<Rightarrow> int" where
  "image_reset node_addresses t0 ps =
     (case filter (image_upgrading node_addresses) (rev ps) of [] \<Rightarrow> t0 | p # _ \<Rightarrow> jclock p)"

text \<open>
  A pass that gets as far as the timeout test: the listing shows another count than
  expected and no node of the cluster is upgrading its image.
\<close>

definition still_short :: "int \<Rightarrow> string list \<Rightarrow> join_poll \<Rightarrow> bool" where
  "still_short expected node_addresses p =
     (uncaught (node_list p) = None \<and> expected \<noteq> found_nodes p
      \<and> uncaught (unconfigured p) = None \<and> \<not> image_upgrading node_addresses p)"

text \<open>Polls of a two-node cluster whose second node, at 10.0.0.3, has not joined.\<close>

definition waiting_poll :: "string \<Rightarrow> int \<Rightarrow> join_poll" where
  "waiting_poll status t =
     \<lparr> node_list = Inr 1, unconfigured = Inr [(''10.0.0.3'', status)], jclock = t,
       log_conn = None \<rparr>"

definition joined_poll :: "int \<Rightarrow> join_poll" where
  "joined_poll t = \<lparr> node_list = Inr 2, unconfigured = Inr [], jclock = t, log_conn = None \<rparr>"

section \<open>Parallel calls on the nodes\<close>

text \<open>
  \<^verbatim>\<open>Cluster.parallel_call\<close> (lines 818-857). A node handle is given with what the named
  method does on it: \<open>None\<close> when the call comes back, the exception otherwise. One thread
  per handle runs \<^verbatim>\<open>thread_cb\<close>, which puts a pair of a description and the exception
  into the queue when the call raised an \<^verbatim>\<open>Exception\<close> (an exception of another kind ends
  the thread and leaves nothing in the queue).
\<close>

type_synonym node_call = "string \<times> vfxt_error option"

definition thread_cb :: "string \<Rightarrow> node_call \<Rightarrow> (string \<times> vfxt_error) list" where
  "thread_cb method w =
     (case snd w of
        None \<Rightarrow> []
      | Some e \<Rightarrow>
          if is_Exception e
          then [(''Failed to '' @ method @ '' instance '' @ fst w, e)]
          else [])"

text \<open>
  The threads are started in the order of the list and all joined. The order in which they
  finish, and so the order of the queue, is not fixed by the code: \<open>finished\<close> lists the
  positions of the handles in the order in which their threads ended. \<open>invoked\<close> are the
  handles whose call was made, \<open>raised\<close> is the exception of \<^verbatim>\<open>parallel_call\<close> itself.
\<close>

record parallel_result =
  invoked :: "string list"
  raised :: "vfxt_error option"

definition parallel_call :: "node_call list \<Rightarrow> string \<Rightarrow> nat list \<Rightarrow> parallel_result" where
  "parallel_call serviceinstances method finished =
     (let failed = concat (map (\<lambda>i. thread_cb method (serviceinstances ! i)) finished)
      in \<lparr> invoked = map (\<lambda>i. fst (serviceinstances ! i)) finished,
           raised = (if failed \<noteq> [] then Some (vFXTServiceFailure failed) else None) \<rparr>)"

text \<open>The failures of the handles in the order of the list.\<close>

definition failures :: "string \<Rightarrow> node_call list \<Rightarrow> (string \<times> vfxt_error) list" where
  "failures method serviceinstances = concat (map (thread_cb method) serviceinstances)"

section \<open>Waiting for an activity\<close>

text \<open>
  The answer of \<^verbatim>\<open>cluster.getActivity\<close> is a dictionary; the call may raise instead.
\<close>

type_synonym response = "(string \<times> string) list"

text \<open>
  The loop of lines 708-714 of \<^verbatim>\<open>add_nodes\<close>, which lines 732-738 repeat for a vserver
  (and \<^verbatim>\<open>attach_corefiler\<close>, \<^verbatim>\<open>remove_corefiler\<close> and \<^verbatim>\<open>add_vserver\<close> for their
  activities): it ends normally when the field \<^verbatim>\<open>state\<close> is \<^verbatim>\<open>success\<close> and raises the
  fixed message \<open>msg\<close> when the field \<^verbatim>\<open>status\<close> is \<^verbatim>\<open>failure\<close>. The call is outside every
  handler, so its exception ends the loop.
\<close>

fun poll_activity :: "string \<Rightarrow> nat \<Rightarrow> (vfxt_error + response) list \<Rightarrow> wait_result" where
  "poll_activity msg n [] = Pending"
| "poll_activity msg n (r # rs) =
     (case r of
        Inl e \<Rightarrow> Raised (Suc n) e
      | Inr response \<Rightarrow>
          if map_of response ''state'' = Some ''success'' then Returned (Suc n)
          else if map_of response ''status'' = Some ''failure''
          then Raised (Suc n) (vFXTConfigurationException msg)
          else poll_activity msg (Suc n) rs)"

text \<open>Lines 706-715: the token \<^verbatim>\<open>success\<close> needs no poll.\<close>

definition extend_cluster_activity :: "string \<Rightarrow> (vfxt_error + response) list \<Rightarrow> wait_result" where
  "extend_cluster_activity activity responses =
     (if activity \<noteq> ''success''
      then poll_activity ''Failed to extend cluster addresses'' 0 responses
      else Returned 0)"

text \<open>
  The loop of \<^verbatim>\<open>attach_bucket\<close> (lines 1116-1136) for the activity that creates the core
  filer: a failed call counts as an empty answer, the field \<^verbatim>\<open>state\<close> decides both ends,
  and the message of a failure carries the field \<^verbatim>\<open>status\<close>. \<^verbatim>\<open>response['status']\<close> of an
  answer without that field is a \<^verbatim>\<open>KeyError\<close>.
\<close>

fun attach_bucket_poll ::
  "string \<Rightarrow> int \<Rightarrow> nat \<Rightarrow> (vfxt_error + response) list \<Rightarrow> wait_result" where
  "attach_bucket_poll corefiler retries n [] = Pending"
| "attach_bucket_poll corefiler retries n (r # rs) =
     (case uncaught r of
        Some e \<Rightarrow> Raised (Suc n) e
      | None \<Rightarrow>
          (let response = (case r of Inl e \<Rightarrow> [] | Inr d \<Rightarrow> d) in
           if map_of response ''state'' = Some ''success'' then Returned (Suc n)
           else if map_of response ''state'' = Some ''failure''
           then Raised (Suc n) (vFXTConfigurationException
                  (''Failed to create corefiler '' @ corefiler @ '': '' @
                   (case map_of response ''status'' of None \<Rightarrow> ''Unknown'' | Some s \<Rightarrow> s)))
           else if retries = 0
           then Raised (Suc n)
                  (case map_of response ''status'' of
                     None \<Rightarrow> PyException ''KeyError''
                   | Some s \<Rightarrow> vFXTConfigurationException (''Giving up: '' @ s))
           else attach_bucket_poll corefiler (retries - 1) (Suc n) rs))"

definition attach_bucket_activity ::
  "string \<Rightarrow> string \<Rightarrow> int \<Rightarrow> (vfxt_error + response) list \<Rightarrow> wait_result" where
  "attach_bucket_activity corefiler activity retries responses =
     (if activity \<noteq> ''success'' then attach_bucket_poll corefiler retries 0 responses
      else Returned 0)"

section \<open>Bootstrap configuration text\<close>

text \<open>
  \<^verbatim>\<open>Cluster.cluster_config\<close> (lines 378-435). The fields of the cluster object that the
  method reads; each may be \<^verbatim>\<open>None\<close>. \<open>node_ips\<close> are the addresses of the node handles.
\<close>

record cluster_fields =
  cname :: "string option"
  admin_password :: "string option"
  mgmt_ip :: "string option"
  mgmt_netmask :: "string option"
  cluster_ip_start :: "string option"
  cluster_ip_end :: "string option"
  join_mgmt :: bool
  node_ips :: "string list"

text \<open>What the backend service answers for DNS servers, NTP servers and the router.\<close>

record service_info =
  dns_servers :: "string list"
  ntp_servers :: "string list"
  default_router :: string

text \<open>\<^verbatim>\<open>'{}'.format(v)\<close> of a string or \<^verbatim>\<open>None\<close>, and the truth value Python gives it.\<close>

definition fmt :: "string option \<Rightarrow> string" where
  "fmt v = (case v of None \<Rightarrow> ''None'' | Some s \<Rightarrow> s)"

definition truthy :: "string option \<Rightarrow> bool" where
  "truthy v = (case v of None \<Rightarrow> False | Some s \<Rightarrow> s \<noteq> [])"

text \<open>Lines 424-426 and 431-433: the three numbered server lines.\<close>

definition server_lines :: "string list \<Rightarrow> string" where
  "server_lines servs =
     concat (map (\<lambda>idx. ''server'' @ str_int (int idx + 1) @ ''='' @
                    (if idx < length servs then servs ! idx else []) @ [newline])
                 [0 ..< 3])"

text \<open>
  \<open>now\<close> is \<^verbatim>\<open>time.time()\<close> in whole seconds (the fraction does not change
  \<^verbatim>\<open>int(time.time() + expiration)\<close> unless the sum is negative); an \<open>expiration\<close> of 0
  stands for the default as well, as \<^verbatim>\<open>expiration or CONFIGURATION_EXPIRATION\<close> has it.
\<close>

definition CONFIGURATION_EXPIRATION :: int where
  "CONFIGURATION_EXPIRATION = 7200"

definition cluster_config ::
  "cluster_fields \<Rightarrow> service_info \<Rightarrow> bool \<Rightarrow> int \<Rightarrow> int \<Rightarrow> vfxt_error + string" where
  "cluster_config self svc joining expiration now =
     (let expiry = str_int (now + (if expiration \<noteq> 0 then expiration else CONFIGURATION_EXPIRATION))
      in if joining
         then
           (let mgmt = (if node_ips self \<noteq> [] \<and> \<not> join_mgmt self
                        then hd (node_ips self) else fmt (mgmt_ip self))
            in Inr (''# cluster.cfg'' @ [newline] @ ''[basic]'' @ [newline] @
                    ''join cluster='' @ mgmt @ [newline] @
                    ''expiration='' @ expiry @ [newline]))
         else
           (let dns_servs = dns_servers svc;
                ntp_servs = ntp_servers svc;
                router = default_router svc
            in if \<not> (truthy (mgmt_ip self) \<and> truthy (mgmt_netmask self)
                      \<and> truthy (cluster_ip_start self) \<and> truthy (cluster_ip_end self))
               then Inl (vFXTConfigurationException
                      ''Management IP/Mask and the cluster IP range is required'')
               else
                 (let config0 =
                        ''# cluster.cfg'' @
                        [newline] @ ''[basic]'' @
                        [newline] @ ''cluster name='' @ fmt (cname self) @
                        [newline] @ ''password='' @ fmt (admin_password self) @
                        [newline] @ ''expiration='' @ expiry @
                        [newline] @ ''[management network]'' @
                        [newline] @ ''address='' @ fmt (mgmt_ip self) @
                        [newline] @ ''netmask='' @ fmt (mgmt_netmask self) @
                        [newline] @ ''default router='' @ router @
                        [newline] @ ''[cluster network]'' @
                        [newline] @ ''first address='' @ fmt (cluster_ip_start self) @
                        [newline] @ ''last address='' @ fmt (cluster_ip_end self);
                      config1 = config0 @ [newline] @ ''[dns]'' @ [newline];
                      config2 = config1 @ server_lines dns_servs;
                      config3 = config2 @ ''domain='' @ [newline];
                      config4 = config3 @ [newline] @ ''[ntp]'' @ [newline];
                      config5 = config4 @ server_lines ntp_servs
                  in Inr config5)))"

text \<open>A text as the lines it is made of: every line ends with a newline.\<close>

definition unlines :: "string list \<Rightarrow> string" where
  "unlines ls = concat (map (\<lambda>l. l @ [newline]) ls)"

text \<open>The server of the given number, or the empty string when fewer are configured.\<close>

definition server_or_empty :: "string list \<Rightarrow> nat \<Rightarrow> string" where
  "server_or_empty servs i = (if i < length servs then servs ! i else [])"

text \<open>
  The literal template of section 6 of the specification, line by line, filled in with
  the values given.
\<close>

definition template_lines ::
  "string \<Rightarrow> string \<Rightarrow> string \<Rightarrow> string \<Rightarrow> string \<Rightarrow> string \<Rightarrow> string \<Rightarrow> string
     \<Rightarrow> string list \<Rightarrow> string list \<Rightarrow> string list" where
  "template_lines nm password expiry mgmt netmask router first_ip last_ip dns ntp =
     [''# cluster.cfg'',
      ''[basic]'',
      ''cluster name='' @ nm,
      ''password='' @ password,
      ''expiration='' @ expiry,
      ''[management network]'',
      ''address='' @ mgmt,
      ''netmask='' @ netmask,
      ''default router='' @ router,
      ''[cluster network]'',
      ''first address='' @ first_ip,
      ''last address='' @ last_ip,
      ''[dns]'',
      ''server1='' @ server_or_empty dns 0,
      ''server2='' @ server_or_empty dns 1,
      ''server3='' @ server_or_empty dns 2,
      ''domain='',
      ''[ntp]'',
      ''server1='' @ server_or_empty ntp 0,
      ''server2='' @ server_or_empty ntp 1,
      ''server3='' @ server_or_empty ntp 2]"

text \<open>The same lines with the empty line that the code puts before \<^verbatim>\<open>[ntp]\<close>.\<close>

definition config_lines ::
  "string \<Rightarrow> string \<Rightarrow> string \<Rightarrow> string \<Rightarrow> string \<Rightarrow> string \<Rightarrow> string \<Rightarrow> string
     \<Rightarrow> string list \<Rightarrow> string list \<Rightarrow> string list" where
  "config_lines nm password expiry mgmt netmask router first_ip last_ip dns ntp =
     (let t = template_lines nm password expiry mgmt netmask router first_ip last_ip dns ntp
      in take 17 t @ [[]] @ drop 17 t)"

text \<open>A cluster and a service with two DNS servers and one NTP server.\<close>

definition example_cluster :: cluster_fields where
  "example_cluster =
     \<lparr> cname = Some ''mycluster'', admin_password = Some ''adminpass'',
       mgmt_ip = Some ''10.1.0.10'', mgmt_netmask = Some ''255.255.255.0'',
       cluster_ip_start = Some ''10.1.0.20'', cluster_ip_end = Some ''10.1.0.29'',
       join_mgmt = True, node_ips = [''10.1.0.11''] \<rparr>"

definition example_service :: service_info where
  "example_service =
     \<lparr> dns_servers = [''10.1.0.2'', ''10.1.0.3''], ntp_servers = [''10.1.0.4''],
       default_router = ''10.1.0.1'' \<rparr>"

text \<open>Four node handles; the call fails on the second and on the fourth.\<close>

definition four_nodes :: "node_call list" where
  "four_nodes =
     [(''node-1'', None), (''node-2'', Some (vFXTStatusFailure ''instance is busy'')),
      (''node-3'', None), (''node-4'', Some (PyException ''timed out''))]"

section \<open>Creating a cluster\<close>

text \<open>
  \<^verbatim>\<open>Cluster.create\<close> (lines 187-286) as the order of its phases and of its handlers. What
  the backend and the management channel do in each phase is given: \<open>None\<close> when the
  phase comes back, the exception otherwise.
\<close>

record create_env =
  proxy_check :: "vfxt_error option"
  name_arg :: string
  management_address :: string
  mgmt_address_in_use :: bool
  create_cluster :: "vfxt_error option"
  skip_configuration :: bool
  skip_cleanup_c :: bool
  service_checks :: "vfxt_error option"
  nodes_join :: "vfxt_error option"
  final_phase :: "vfxt_error option"
  destroy_call :: "vfxt_error option"
  telemetry_call :: "vfxt_error option"

datatype cleanup_action = Destroy | Telemetry

text \<open>
  What \<^verbatim>\<open>create\<close> did to clean up, and how it ended: \<open>Inr True\<close> when it returned the
  cluster, \<open>Inr False\<close> when it returned nothing (\<^verbatim>\<open>skip_configuration\<close>).
\<close>

record create_result =
  cleanup :: "cleanup_action list"
  ending :: "vfxt_error + bool"

text \<open>
  The body of the last three handlers up to the \<^verbatim>\<open>raise\<close>: \<^verbatim>\<open>c.destroy()\<close>, or
  \<^verbatim>\<open>c.telemetry()\<close> when the cleanup is skipped. An exception of the call leaves the
  handler in place of the one that \<open>and_then\<close> would raise.
\<close>

definition cleanup_then_raise :: "create_env \<Rightarrow> vfxt_error \<Rightarrow> create_result" where
  "cleanup_then_raise env and_then =
     (if \<not> skip_cleanup_c env
      then \<lparr> cleanup = [Destroy],
             ending = (case destroy_call env of Some d \<Rightarrow> Inl d | None \<Rightarrow> Inl and_then) \<rparr>
      else \<lparr> cleanup = [Telemetry],
             ending = (case telemetry_call env of Some t \<Rightarrow> Inl t | None \<Rightarrow> Inl and_then) \<rparr>)"

definition create :: "create_env \<Rightarrow> create_result" where
  "create env =
     (case proxy_check env of
        Some e \<Rightarrow> \<lparr> cleanup = [], ending = Inl e \<rparr>
      | None \<Rightarrow>
     if name_arg env = []
     then \<lparr> cleanup = [], ending = Inl (vFXTConfigurationException ''A cluster name is required'') \<rparr>
     else if \<not> valid_cluster_name (name_arg env)
     then \<lparr> cleanup = [],
            ending = Inl (vFXTConfigurationException
                            (name_arg env @ '' is not a valid cluster name'')) \<rparr>
     else if management_address env \<noteq> [] \<and> mgmt_address_in_use env
     then \<lparr> cleanup = [],
            ending = Inl (vFXTConfigurationException
                            (''The requested management address '' @ management_address env @
                             '' is already in use'')) \<rparr>
     else
       (case create_cluster env of
          Some e \<Rightarrow>
            if e = KeyboardInterrupt \<and> \<not> skip_cleanup_c env
            then \<lparr> cleanup = [Destroy],
                   ending = (case destroy_call env of Some d \<Rightarrow> Inl d | None \<Rightarrow> Inl e) \<rparr>
            else \<lparr> cleanup = [], ending = Inl e \<rparr>
        | None \<Rightarrow>
            if skip_configuration env then \<lparr> cleanup = [], ending = Inr False \<rparr>
            else
              (case service_checks env of
                 Some e \<Rightarrow> cleanup_then_raise env e
               | None \<Rightarrow>
                   (case nodes_join env of
                      Some e \<Rightarrow> cleanup_then_raise env e
                    | None \<Rightarrow>
                        (case final_phase env of
                           Some e \<Rightarrow> cleanup_then_raise env (vFXTCreateFailure e)
                         | None \<Rightarrow> \<lparr> cleanup = [], ending = Inr True \<rparr>)))))"


text \<open>
  \<^verbatim>\<open>create\<close> gets as far as the service checks: the arguments pass, the backend has
  created the instances and the configuration is not skipped.
\<close>

definition reaches_checks :: "create_env \<Rightarrow> bool" where
  "reaches_checks env =
     (proxy_check env = None \<and> name_arg env \<noteq> [] \<and> valid_cluster_name (name_arg env)
      \<and> (management_address env = [] \<or> \<not> mgmt_address_in_use env)
      \<and> create_cluster env = None \<and> \<not> skip_configuration env)"

text \<open>The call that the handlers make before they raise, and how it ends.\<close>

definition cleanup_action_of :: "create_env \<Rightarrow> cleanup_action" where
  "cleanup_action_of env = (if skip_cleanup_c env then Telemetry else Destroy)"

definition cleanup_call :: "create_env \<Rightarrow> vfxt_error option" where
  "cleanup_call env = (if skip_cleanup_c env then telemetry_call env else destroy_call env)"

text \<open>
  A creation in which every phase comes back, and two in which one does not: the service
  checks fail on a node; the health check fails and then the destruction of a node.
\<close>

definition smooth_create :: create_env where
  "smooth_create =
     \<lparr> proxy_check = None, name_arg = ''mycluster'', management_address = [],
       mgmt_address_in_use = False, create_cluster = None, skip_configuration = False,
       skip_cleanup_c = False, service_checks = None, nodes_join = None, final_phase = None,
       destroy_call = None, telemetry_call = None \<rparr>"

definition checks_fail :: create_env where
  "checks_fail =
     smooth_create \<lparr> service_checks :=
       Some (vFXTServiceFailure
         [(''Failed to wait_for_service_checks instance node-2'', PyException ''timed out'')]) \<rparr>"

definition destroy_fails :: create_env where
  "destroy_fails =
     smooth_create \<lparr> final_phase := Some (vFXTStatusFailure ''Healthcheck for state yellow failed''),
       destroy_call :=
         Some (vFXTServiceFailure
           [(''Failed to destroy instance node-1'', PyException ''permission denied'')]) \<rparr>"

definition healthcheck_fails :: create_env where
  "healthcheck_fails =
     smooth_create \<lparr> final_phase := Some (vFXTStatusFailure ''Healthcheck for state yellow failed'') \<rparr>"

section \<open>Adding nodes\<close>

text \<open>
  Addresses are the numbers that \<^verbatim>\<open>Cidr.from_address\<close> gives them. A range of the
  management plane has a first and a last address, a netmask and the name under which it
  is removed.
\<close>

type_synonym ip = nat

record range_body =
  firstIP :: ip
  netmask :: string
  lastIP :: ip

record ip_range = range_body +
  rname :: string

text \<open>
  Modelled from the spec: \<^verbatim>\<open>Cidr.expand_address_range\<close> of \<^verbatim>\<open>vFXT.cidr\<close>, which is not
  among the sources; the addresses from the first to the last, both included.
\<close>

definition expand_address_range :: "ip \<Rightarrow> ip \<Rightarrow> ip list" where
  "expand_address_range first_ip last_ip = [first_ip ..< Suc last_ip]"

text \<open>
  The calls of \<^verbatim>\<open>add_nodes\<close> to the backend and to the management channel. Each may
  raise; the calls that change an address range start an activity.
\<close>

datatype rpc_call =
    Reload
  | AddClusterNodesSetup
  | ListLicenses
  | ClusterGet
  | VserverList
  | VserverGet string
  | GetAvailableAddresses
  | AddClusterIPs range_body
  | AddClientIPs string range_body
  | RemoveClusterIPs string
  | RemoveClientIPs string string
  | LoadClusterInformation
  | ListUnconfiguredNodes
  | AllowNodeJoin bool
  | TelemetryCall
  | DestroyNodes "string list"

text \<open>
  What the method works on: the address ranges of the cluster and of each vserver (in the
  order of \<^verbatim>\<open>vserver.list()\<close>) and the management address, as the management plane holds
  them, with the requests that changed or tried to change a range or destroyed nodes, in
  the order in which they were made, and what the handler of lines 754-816 writes to the
  log with \<^verbatim>\<open>log.error\<close>, itself (lines 755, 778, 796, 811) or in the threads of its
  \<^verbatim>\<open>parallel_call\<close> (line 839): an exception (\<^verbatim>\<open>log.error(e)\<close>), a text, or a text
  followed by an exception (\<^verbatim>\<open>'...: {}'.format(e)\<close>).
\<close>

datatype log_line = ErrorOf vfxt_error | ErrorText string | ErrorWith string vfxt_error

record world =
  clusterIPs :: "ip_range list"
  vservers :: "(string \<times> ip_range list) list"
  mgmtIP :: ip
  requests :: "rpc_call list"
  logged :: "log_line list"

text \<open>How a call ends: with a value, with an exception, or never.\<close>

datatype 'a res = Ok 'a | Throws vfxt_error | NeverReturns

text \<open>The entries of the list \<^verbatim>\<open>added\<close>: \<^verbatim>\<open>{'cluster': body}\<close> and \<^verbatim>\<open>{'vserver': body}\<close>.\<close>

datatype added_entry = ClusterExt range_body | VserverExt range_body

text \<open>
  What is given to a run of \<^verbatim>\<open>add_nodes\<close>: which calls raise, the token and the answers
  to the polls of each activity, the name that the management plane gives a new range,
  the answers of the backend, the options, and what the phase that adds the nodes leaves
  behind when it fails.
\<close>

record add_env =
  fault :: "rpc_call \<Rightarrow> vfxt_error option"
  activity :: "rpc_call \<Rightarrow> string \<times> (vfxt_error + response) list"
  range_name :: "range_body \<Rightarrow> string"
  nodes0 :: "string list"
  max_nodes :: int
  cluster_ips_per_node :: int
  allocate_private :: bool
  custom_range :: "(ip \<times> ip \<times> string) option"
  available :: "ip list \<times> string"
  skip_cleanup :: bool
  node_phase :: "vfxt_error option"
  expected_nodes :: "string list"
  joined_nodes :: "string list"
  node_address :: "string \<Rightarrow> string"
  unconfigured_nodes :: "(string \<times> string) list"
  destroy_node :: "string \<Rightarrow> vfxt_error option"

text \<open>The first of the calls that raises.\<close>

fun first_fault :: "add_env \<Rightarrow> rpc_call list \<Rightarrow> vfxt_error option" where
  "first_fault env [] = None"
| "first_fault env (c # cs) = (case fault env c of Some e \<Rightarrow> Some e | None \<Rightarrow> first_fault env cs)"

text \<open>
  \<^verbatim>\<open>Cluster.in_use_addresses\<close> (lines 1653-1681): the calls it makes and the addresses it
  returns, each once.
\<close>

definition in_use_calls :: "string \<Rightarrow> world \<Rightarrow> rpc_call list" where
  "in_use_calls category w =
     (if category \<in> set [''all'', ''mgmt''] then [ClusterGet] else [])
     @ (if category \<in> set [''all'', ''vserver'']
        then VserverList # map (\<lambda>v. VserverGet (fst v)) (vservers w) else [])
     @ (if category \<in> set [''all'', ''cluster''] then [ClusterGet] else [])"

definition range_addresses :: "ip_range list \<Rightarrow> ip list" where
  "range_addresses rs = concat (map (\<lambda>r. expand_address_range (firstIP r) (lastIP r)) rs)"

definition in_use_addresses :: "string \<Rightarrow> world \<Rightarrow> ip list" where
  "in_use_addresses category w =
     remdups
       ((if category \<in> set [''all'', ''mgmt''] then [mgmtIP w] else [])
        @ (if category \<in> set [''all'', ''vserver'']
           then concat (map (\<lambda>v. range_addresses (snd v)) (vservers w)) else [])
        @ (if category \<in> set [''all'', ''cluster''] then range_addresses (clusterIPs w) else []))"

text \<open>Python's \<^verbatim>\<open>xs[0:n]\<close> and what \<^verbatim>\<open>del xs[0:n]\<close> leaves, for any integer \<open>n\<close>.\<close>

definition slice_to :: "int \<Rightarrow> 'a list \<Rightarrow> 'a list" where
  "slice_to n xs = (if 0 \<le> n then take (nat n) xs else take (length xs - nat (- n)) xs)"

definition del_to :: "int \<Rightarrow> 'a list \<Rightarrow> 'a list" where
  "del_to n xs = (if 0 \<le> n then drop (nat n) xs else drop (length xs - nat (- n)) xs)"

text \<open>What the management plane does when an activity has succeeded.\<close>

definition named :: "add_env \<Rightarrow> range_body \<Rightarrow> ip_range" where
  "named env b =
     \<lparr> firstIP = firstIP b, netmask = netmask b, lastIP = lastIP b, rname = range_name env b \<rparr>"

definition add_cluster_range :: "add_env \<Rightarrow> range_body \<Rightarrow> world \<Rightarrow> world" where
  "add_cluster_range env b w = w \<lparr> clusterIPs := clusterIPs w @ [named env b] \<rparr>"

definition add_client_range :: "add_env \<Rightarrow> string \<Rightarrow> range_body \<Rightarrow> world \<Rightarrow> world" where
  "add_client_range env v b w =
     w \<lparr> vservers := map (\<lambda>(u, rs). if u = v then (u, rs @ [named env b]) else (u, rs))
                          (vservers w) \<rparr>"

definition remove_cluster_range :: "string \<Rightarrow> world \<Rightarrow> world" where
  "remove_cluster_range n w = w \<lparr> clusterIPs := filter (\<lambda>r. rname r \<noteq> n) (clusterIPs w) \<rparr>"

definition remove_client_range :: "string \<Rightarrow> string \<Rightarrow> world \<Rightarrow> world" where
  "remove_client_range v n w =
     w \<lparr> vservers := map (\<lambda>(u, rs). if u = v then (u, filter (\<lambda>r. rname r \<noteq> n) rs) else (u, rs))
                          (vservers w) \<rparr>"

definition request :: "rpc_call \<Rightarrow> world \<Rightarrow> world" where
  "request c w = w \<lparr> requests := requests w @ [c] \<rparr>"

definition log_error :: "log_line \<Rightarrow> world \<Rightarrow> world" where
  "log_error msg w = w \<lparr> logged := logged w @ [msg] \<rparr>"


text \<open>
  Lines 706-715 and 730-739: the request for a new range and the wait for its activity.
  The range is there when the activity has succeeded.
\<close>

definition extend_one ::
  "add_env \<Rightarrow> rpc_call \<Rightarrow> string \<Rightarrow> (world \<Rightarrow> world) \<Rightarrow> world \<Rightarrow> unit res \<times> world" where
  "extend_one env call msg applied w =
     (case fault env call of
        Some e \<Rightarrow> (Throws e, w)
      | None \<Rightarrow>
          (let w1 = request call w;
               token = fst (activity env call);
               answers = snd (activity env call)
           in if token \<noteq> ''success''
              then (case poll_activity msg 0 answers of
                      Returned n \<Rightarrow> (Ok (), applied w1)
                    | Raised n e \<Rightarrow> (Throws e, w1)
                    | Pending \<Rightarrow> (NeverReturns, w1))
              else (Ok (), applied w1)))"

text \<open>
  The body for a slice of the available addresses: \<^verbatim>\<open>addresses[0]\<close> of an empty slice is
  an \<^verbatim>\<open>IndexError\<close>.
\<close>

definition body_of :: "string \<Rightarrow> ip list \<Rightarrow> vfxt_error + range_body" where
  "body_of msk addresses =
     (if addresses = [] then Inl (PyException ''IndexError'')
      else Inr \<lparr> firstIP = hd addresses, netmask = msk, lastIP = last addresses \<rparr>)"

text \<open>
  The state of the local variables \<^verbatim>\<open>avail_ips\<close> (unbound when a custom range is given,
  since line 689 assigns \<^verbatim>\<open>avail_ip\<close>) and \<^verbatim>\<open>added\<close>.
\<close>

record locals =
  avail_ips :: "ip list option"
  added :: "added_entry list"

text \<open>Lines 700-715.\<close>

definition extend_cluster ::
  "add_env \<Rightarrow> int \<Rightarrow> string \<Rightarrow> locals \<Rightarrow> world \<Rightarrow> locals res \<times> world" where
  "extend_cluster env need msk l w =
     (if need > 0
      then (case avail_ips l of
              None \<Rightarrow> (Throws (PyException ''UnboundLocalError''), w)
            | Some ips \<Rightarrow>
                (let addresses = slice_to need ips;
                     l1 = l \<lparr> avail_ips := Some (del_to need ips) \<rparr>
                 in case body_of msk addresses of
                      Inl e \<Rightarrow> (Throws e, w)
                    | Inr body \<Rightarrow>
                        (case extend_one env (AddClusterIPs body)
                                ''Failed to extend cluster addresses''
                                (add_cluster_range env body) w of
                           (Ok u, w1) \<Rightarrow> (Ok (l1 \<lparr> added := added l1 @ [ClusterExt body] \<rparr>), w1)
                         | (Throws e, w1) \<Rightarrow> (Throws e, w1)
                         | (NeverReturns, w1) \<Rightarrow> (NeverReturns, w1))))
      else (Ok l, w))"

text \<open>The ranges that \<^verbatim>\<open>vserver.get(v)[v]['clientFacingIPs']\<close> shows.\<close>

definition client_ranges :: "world \<Rightarrow> string \<Rightarrow> ip_range list" where
  "client_ranges w v = (case map_of (vservers w) v of None \<Rightarrow> [] | Some rs \<Rightarrow> rs)"

text \<open>Lines 719-739: the body of the loop for one vserver.\<close>

definition extend_vserver ::
  "add_env \<Rightarrow> int \<Rightarrow> string \<Rightarrow> string \<Rightarrow> locals \<Rightarrow> world \<Rightarrow> locals res \<times> world" where
  "extend_vserver env target msk v l w =
     (case fault env (VserverGet v) of
        Some e \<Rightarrow> (Throws e, w)
      | None \<Rightarrow>
          (let v_len = length (range_addresses (client_ranges w v));
               to_add = target - int v_len
           in if to_add < 1 then (Ok l, w)
              else
                (case avail_ips l of
                   None \<Rightarrow> (Throws (PyException ''UnboundLocalError''), w)
                 | Some ips \<Rightarrow>
                     (let addresses = slice_to to_add ips;
                          l1 = l \<lparr> avail_ips := Some (del_to to_add ips) \<rparr>
                      in case body_of msk addresses of
                           Inl e \<Rightarrow> (Throws e, w)
                         | Inr body \<Rightarrow>
                             (case extend_one env (AddClientIPs v body)
                                     (''Failed to extend vserver '' @ v @ '' addresses'')
                                     (add_client_range env v body) w of
                                (Ok u, w1) \<Rightarrow>
                                  (Ok (l1 \<lparr> added := added l1 @ [VserverExt body] \<rparr>), w1)
                              | (Throws e, w1) \<Rightarrow> (Throws e, w1)
                              | (NeverReturns, w1) \<Rightarrow> (NeverReturns, w1))))))"

text \<open>Line 718: the loop over the names that \<^verbatim>\<open>vserver.list()\<close> gave.\<close>

fun extend_vservers ::
  "add_env \<Rightarrow> int \<Rightarrow> string \<Rightarrow> string list \<Rightarrow> locals \<Rightarrow> world \<Rightarrow> locals res \<times> world" where
  "extend_vservers env target msk [] l w = (Ok l, w)"
| "extend_vservers env target msk (v # vs) l w =
     (case extend_vserver env target msk v l w of
        (Ok l1, w1) \<Rightarrow> extend_vservers env target msk vs l1 w1
      | (Throws e, w1) \<Rightarrow> (Throws e, w1)
      | (NeverReturns, w1) \<Rightarrow> (NeverReturns, w1))"

text \<open>
  Lines 685-698: the addresses to use and their netmask, after the private addresses have
  been taken from the front. With a custom range the list \<^verbatim>\<open>avail_ips\<close> is never bound.
\<close>

definition get_addresses ::
  "add_env \<Rightarrow> address_needs \<Rightarrow> world \<Rightarrow> vfxt_error + (ip list option \<times> string)" where
  "get_addresses env needs w =
     (case first_fault env (in_use_calls ''all'' w) of
        Some e \<Rightarrow> Inl e
      | None \<Rightarrow>
          (let got =
                 (case custom_range env of
                    Some (start, end_ip, msk) \<Rightarrow>
                      if int (length (expand_address_range start end_ip)) < ip_count needs
                      then Inl (vFXTConfigurationException
                             (''Not enough addresses provided, require '' @
                              str_int (ip_count needs)))
                      else Inr (None, msk)
                  | None \<Rightarrow>
                      (case fault env GetAvailableAddresses of
                         Some e \<Rightarrow> Inl e
                       | None \<Rightarrow> Inr (Some (fst (available env)), snd (available env))))
           in case got of
                Inl e \<Rightarrow> Inl e
              | Inr (avail, msk) \<Rightarrow>
                  if need_private needs \<noteq> 0
                  then (case avail of
                          None \<Rightarrow> Inl (PyException ''UnboundLocalError'')
                        | Some ips \<Rightarrow> Inr (Some (del_to (need_private needs) ips), msk))
                  else Inr (avail, msk)))"

text \<open>Lines 700-739: the cluster first, then the vservers.\<close>

definition apply_addresses ::
  "add_env \<Rightarrow> int \<Rightarrow> address_needs \<Rightarrow> string \<Rightarrow> locals \<Rightarrow> world \<Rightarrow> locals res \<times> world" where
  "apply_addresses env target needs msk l0 w =
     (case extend_cluster env (need_cluster needs) msk l0 w of
        (Ok l1, w1) \<Rightarrow>
          if need_vserver needs > 0
          then (case fault env VserverList of
                  Some e \<Rightarrow> (Throws e, w1)
                | None \<Rightarrow> extend_vservers env target msk (map fst (vservers w1)) l1 w1)
          else (Ok l1, w1)
      | (Throws e, w1) \<Rightarrow> (Throws e, w1)
      | (NeverReturns, w1) \<Rightarrow> (NeverReturns, w1))"

text \<open>Lines 684-739.\<close>

definition extend_ranges ::
  "add_env \<Rightarrow> int \<Rightarrow> address_needs \<Rightarrow> world \<Rightarrow> locals res \<times> world" where
  "extend_ranges env target needs w =
     (if ip_count needs > 0
      then (case get_addresses env needs w of
              Inl e \<Rightarrow> (Throws e, w)
            | Inr (avail, msk) \<Rightarrow>
                apply_addresses env target needs msk \<lparr> avail_ips = avail, added = [] \<rparr> w)
      else (Ok \<lparr> avail_ips = None, added = [] \<rparr>, w))"

text \<open>
  The wait of the undoing (lines 790-798 and 805-813): a failure is written to the log and
  ends the wait; nothing is raised.
\<close>

datatype undo_result = UndoDone | UndoFailed | UndoRaised vfxt_error | UndoPending

fun undo_poll :: "(vfxt_error + response) list \<Rightarrow> undo_result" where
  "undo_poll [] = UndoPending"
| "undo_poll (r # rs) =
     (case r of
        Inl e \<Rightarrow> UndoRaised e
      | Inr response \<Rightarrow>
          if map_of response ''state'' = Some ''success'' then UndoDone
          else if map_of response ''status'' = Some ''failure'' then UndoFailed
          else undo_poll rs)"

definition undo_one ::
  "add_env \<Rightarrow> rpc_call \<Rightarrow> string \<Rightarrow> (world \<Rightarrow> world) \<Rightarrow> world \<Rightarrow> unit res \<times> world" where
  "undo_one env call msg applied w =
     (case fault env call of
        Some e \<Rightarrow> (Throws e, w)
      | None \<Rightarrow>
          (let w1 = request call w;
               token = fst (activity env call);
               answers = snd (activity env call)
           in if token \<noteq> ''success''
              then (case undo_poll answers of
                      UndoDone \<Rightarrow> (Ok (), applied w1)
                    | UndoFailed \<Rightarrow> (Ok (), log_error (ErrorText msg) w1)
                    | UndoRaised e \<Rightarrow> (Throws e, w1)
                    | UndoPending \<Rightarrow> (NeverReturns, w1))
              else (Ok (), applied w1)))"

text \<open>
  The inner loops of lines 786-798 and 801-813 over the ranges that the management plane
  showed: every range with the first and the last address of the entry is removed by its
  name.
\<close>

fun undo_matching ::
  "add_env \<Rightarrow> (ip_range \<Rightarrow> rpc_call) \<Rightarrow> string \<Rightarrow> (ip_range \<Rightarrow> world \<Rightarrow> world) \<Rightarrow> range_body
     \<Rightarrow> ip_range list \<Rightarrow> world \<Rightarrow> unit res \<times> world" where
  "undo_matching env call msg applied a [] w = (Ok (), w)"
| "undo_matching env call msg applied a (r # rs) w =
     (if firstIP r = firstIP a \<and> lastIP r = lastIP a
      then (case undo_one env (call r) msg (applied r) w of
              (Ok u, w1) \<Rightarrow> undo_matching env call msg applied a rs w1
            | (Throws e, w1) \<Rightarrow> (Throws e, w1)
            | (NeverReturns, w1) \<Rightarrow> (NeverReturns, w1))
      else undo_matching env call msg applied a rs w)"

fun undo_vservers ::
  "add_env \<Rightarrow> range_body \<Rightarrow> string list \<Rightarrow> world \<Rightarrow> unit res \<times> world" where
  "undo_vservers env a [] w = (Ok (), w)"
| "undo_vservers env a (v # vs) w =
     (case fault env (VserverGet v) of
        Some e \<Rightarrow> (Throws e, w)
      | None \<Rightarrow>
          (case undo_matching env (\<lambda>r. RemoveClientIPs v (rname r))
                  ''Failed to undo vserver extension''
                  (\<lambda>r. remove_client_range v (rname r)) a (client_ranges w v) w of
             (Ok u, w1) \<Rightarrow> undo_vservers env a vs w1
           | (Throws e, w1) \<Rightarrow> (Throws e, w1)
           | (NeverReturns, w1) \<Rightarrow> (NeverReturns, w1)))"

text \<open>Lines 783-813 for one entry of \<^verbatim>\<open>added\<close>.\<close>

definition undo_entry :: "add_env \<Rightarrow> added_entry \<Rightarrow> world \<Rightarrow> unit res \<times> world" where
  "undo_entry env entry w =
     (case entry of
        VserverExt a \<Rightarrow>
          (case fault env VserverList of
             Some e \<Rightarrow> (Throws e, w)
           | None \<Rightarrow> undo_vservers env a (map fst (vservers w)) w)
      | ClusterExt a \<Rightarrow>
          (case fault env ClusterGet of
             Some e \<Rightarrow> (Throws e, w)
           | None \<Rightarrow>
               undo_matching env (\<lambda>r. RemoveClusterIPs (rname r))
                 ''Failed to undo cluster extension''
                 (\<lambda>r. remove_cluster_range (rname r)) a (clusterIPs w) w))"

text \<open>Line 782: \<^verbatim>\<open>for a in added\<close>, from the first entry to the last.\<close>

fun undo_added :: "add_env \<Rightarrow> added_entry list \<Rightarrow> world \<Rightarrow> unit res \<times> world" where
  "undo_added env [] w = (Ok (), w)"
| "undo_added env (x # xs) w =
     (case undo_entry env x w of
        (Ok u, w1) \<Rightarrow> undo_added env xs w1
      | (Throws e, w1) \<Rightarrow> (Throws e, w1)
      | (NeverReturns, w1) \<Rightarrow> (NeverReturns, w1))"

text \<open>
  Line 768: the identifiers that are in one of the two lists only (in an order of the
  model's choosing; Python gives them in the order of a set).
\<close>

definition symmetric_difference :: "string list \<Rightarrow> string list \<Rightarrow> string list" where
  "symmetric_difference xs ys =
     remdups (filter (\<lambda>i. i \<notin> set ys) xs @ filter (\<lambda>i. i \<notin> set xs) ys)"

text \<open>
  Lines 768-778: the nodes that did not join, without those that are joining, are
  destroyed; a failure of that is written to the log. The threads of \<^verbatim>\<open>parallel_call\<close>
  are taken to finish in the order of the list; \<open>thread_log\<close> is what a thread writes
  to the log (line 839).
\<close>

definition thread_log :: "string \<Rightarrow> node_call \<Rightarrow> log_line list" where
  "thread_log method w =
     (case snd w of
        None \<Rightarrow> []
      | Some e \<Rightarrow>
          if is_Exception e
          then [ErrorWith (''Failed to '' @ method @ '' '' @ fst w @ '': '') e]
          else [])"

definition unjoined_nodes :: "add_env \<Rightarrow> string list" where
  "unjoined_nodes env =
     (let unjoined = symmetric_difference (expected_nodes env) (joined_nodes env);
          joining_node_addresses =
            map fst (filter (\<lambda>u. contains ''joining'' (snd u)) (unconfigured_nodes env))
      in filter (\<lambda>i. node_address env i \<notin> set joining_node_addresses) unjoined)"

definition destroy_unjoined :: "add_env \<Rightarrow> world \<Rightarrow> world" where
  "destroy_unjoined env w =
     (if unjoined_nodes env \<noteq> []
      then (let calls = map (\<lambda>i. (i, destroy_node env i)) (unjoined_nodes env);
                w1 = fold log_error (concat (map (thread_log ''destroy'') calls))
                       (request (DestroyNodes (unjoined_nodes env)) w)
            in case raised (parallel_call calls ''destroy'' [0 ..< length calls]) of
                 None \<Rightarrow> w1
               | Some destroy_e \<Rightarrow>
                   log_error (ErrorWith ''Failed to undo configuration: '' destroy_e) w1)
      else w)"

text \<open>
  The handler of lines 754-816 for the exception \<open>e\<close> of the phase that adds the nodes.
\<close>

definition handle_failure ::
  "add_env \<Rightarrow> int \<Rightarrow> vfxt_error \<Rightarrow> added_entry list \<Rightarrow> world \<Rightarrow> unit res \<times> world" where
  "handle_failure env cnt e added_list w =
     (let w0 = log_error (ErrorOf e) w in
      if skip_cleanup env
      then (case fault env TelemetryCall of
              Some t \<Rightarrow> (Throws t, w0)
            | None \<Rightarrow> (Throws (vFXTCreateFailure e), w0))
      else
        (case first_fault env [LoadClusterInformation, ListUnconfiguredNodes] of
           Some x \<Rightarrow> (Throws x, w0)
         | None \<Rightarrow>
             (let unjoined = symmetric_difference (expected_nodes env) (joined_nodes env);
                  w1 = destroy_unjoined env w0;
                  undone = (if int (length unjoined) = cnt
                            then undo_added env added_list w1 else (Ok (), w1))
              in case undone of
                   (Ok u, w2) \<Rightarrow>
                     (case fault env (AllowNodeJoin False) of
                        Some x \<Rightarrow> (Throws x, w2)
                      | None \<Rightarrow> (Throws (vFXTCreateFailure e), w2))
                 | (Throws x, w2) \<Rightarrow> (Throws x, w2)
                 | (NeverReturns, w2) \<Rightarrow> (NeverReturns, w2))))"

text \<open>
  Lines 653-739 of \<^verbatim>\<open>Cluster.add_nodes\<close> for \<^verbatim>\<open>count = cnt\<close>: everything before the
  \<^verbatim>\<open>try\<close>. An exception here leaves the method as it is, with no handler.
\<close>

definition prepare_addresses :: "add_env \<Rightarrow> int \<Rightarrow> world \<Rightarrow> locals res \<times> world" where
  "prepare_addresses env cnt w =
     (case fault env Reload of
        Some e \<Rightarrow> (Throws e, w)
      | None \<Rightarrow>
     (let node_count = int (length (nodes0 env)) in
      if node_count = 0
      then (Throws (vFXTConfigurationException ''Cannot add a node to an empty cluster''), w)
      else
        (case first_fault env ([AddClusterNodesSetup, ListLicenses]) of
           Some e \<Rightarrow> (Throws e, w)
         | None \<Rightarrow>
        if node_count + cnt > max_nodes env
        then (Throws (vFXTConfigurationException
                (''Cannot expand cluster to '' @ str_int (node_count + cnt) @
                 '' nodes as the current licensed maximum is '' @ str_int (max_nodes env))), w)
        else
          (case first_fault env ([ClusterGet, VserverList] @ in_use_calls ''vserver'' w
                                  @ in_use_calls ''cluster'' w) of
             Some e \<Rightarrow> (Throws e, w)
           | None \<Rightarrow>
               (let needs = compute_needs node_count cnt (cluster_ips_per_node env)
                              (int (length (vservers w)))
                              (int (length (in_use_addresses ''vserver'' w)))
                              (int (length (in_use_addresses ''cluster'' w)))
                              (allocate_private env)
                in extend_ranges env (node_count + cnt) needs w)))))"

text \<open>
  \<^verbatim>\<open>Cluster.add_nodes\<close> (lines 633-816): the preparation, the phase that adds the nodes
  (lines 742-753) and its handler.
\<close>

definition add_nodes :: "add_env \<Rightarrow> int \<Rightarrow> world \<Rightarrow> unit res \<times> world" where
  "add_nodes env cnt w =
     (case prepare_addresses env cnt w of
        (Ok l, w1) \<Rightarrow>
          (case node_phase env of
             None \<Rightarrow> (Ok (), w1)
           | Some e \<Rightarrow> handle_failure env cnt e (added l) w1)
      | (Throws e, w1) \<Rightarrow> (Throws e, w1)
      | (NeverReturns, w1) \<Rightarrow> (NeverReturns, w1))"

text \<open>
  An extension that was applied: to the cluster, or to the vserver named. The requests
  that apply and remove it, its entry in \<^verbatim>\<open>added\<close>, and what the management plane holds
  after each of the two requests has succeeded.
\<close>

datatype extension = OnCluster range_body | OnVserver string range_body

definition add_request :: "extension \<Rightarrow> rpc_call" where
  "add_request x = (case x of OnCluster b \<Rightarrow> AddClusterIPs b | OnVserver v b \<Rightarrow> AddClientIPs v b)"

definition remove_request :: "add_env \<Rightarrow> extension \<Rightarrow> rpc_call" where
  "remove_request env x =
     (case x of
        OnCluster b \<Rightarrow> RemoveClusterIPs (range_name env b)
      | OnVserver v b \<Rightarrow> RemoveClientIPs v (range_name env b))"

definition entry :: "extension \<Rightarrow> added_entry" where
  "entry x = (case x of OnCluster b \<Rightarrow> ClusterExt b | OnVserver v b \<Rightarrow> VserverExt b)"

definition extended :: "add_env \<Rightarrow> extension \<Rightarrow> world \<Rightarrow> world" where
  "extended env x w =
     (case x of
        OnCluster b \<Rightarrow> add_cluster_range env b (request (AddClusterIPs b) w)
      | OnVserver v b \<Rightarrow> add_client_range env v b (request (AddClientIPs v b) w))"

definition reduced :: "add_env \<Rightarrow> extension \<Rightarrow> world \<Rightarrow> world" where
  "reduced env x w =
     (case x of
        OnCluster b \<Rightarrow>
          remove_cluster_range (range_name env b) (request (RemoveClusterIPs (range_name env b)) w)
      | OnVserver v b \<Rightarrow>
          remove_client_range v (range_name env b)
            (request (RemoveClientIPs v (range_name env b)) w))"

text \<open>The first and the last address of a range.\<close>

definition bounds :: "'a range_body_scheme \<Rightarrow> ip \<times> ip" where
  "bounds r = (firstIP r, lastIP r)"

text \<open>
  No two vservers have the same name; no two ranges of the cluster, and no two ranges of
  one vserver, have the same name; no two ranges of the cluster, and no two ranges of the
  vservers, have the same first and last address.
\<close>

definition unambiguous :: "world \<Rightarrow> bool" where
  "unambiguous w =
     (distinct (map fst (vservers w))
      \<and> distinct (map rname (clusterIPs w))
      \<and> distinct (map bounds (clusterIPs w))
      \<and> list_all (\<lambda>v. distinct (map rname (snd v))) (vservers w)
      \<and> distinct (concat (map (\<lambda>v. map bounds (snd v)) (vservers w))))"

text \<open>No call raises; every removal succeeds, at once or at some poll of its activity.\<close>

definition calm :: "add_env \<Rightarrow> bool" where
  "calm env = (\<forall>c. fault env c = None)"

definition removal_succeeds :: "add_env \<Rightarrow> rpc_call \<Rightarrow> bool" where
  "removal_succeeds env c =
     (fst (activity env c) = ''success'' \<or> undo_poll (snd (activity env c)) = UndoDone)"

text \<open>
  The wait for a removal ends: the request answers \<^verbatim>\<open>'success'\<close>, or some poll of its
  activity answers the state \<^verbatim>\<open>'success'\<close> or the status \<^verbatim>\<open>'failure'\<close> and no poll before
  it raises. The second says that it ends with the status \<^verbatim>\<open>'failure'\<close>.
\<close>

definition removal_settles :: "add_env \<Rightarrow> rpc_call \<Rightarrow> bool" where
  "removal_settles env c =
     (fst (activity env c) = ''success'' \<or> undo_poll (snd (activity env c)) = UndoDone
      \<or> undo_poll (snd (activity env c)) = UndoFailed)"

definition removal_fails :: "add_env \<Rightarrow> rpc_call \<Rightarrow> bool" where
  "removal_fails env c =
     (fst (activity env c) \<noteq> ''success'' \<and> undo_poll (snd (activity env c)) = UndoFailed)"

text \<open>The requests that remove a range, and the line of the log for one that failed.\<close>

fun is_removal :: "rpc_call \<Rightarrow> bool" where
  "is_removal (RemoveClusterIPs n) = True"
| "is_removal (RemoveClientIPs v n) = True"
| "is_removal c = False"

fun undo_message :: "rpc_call \<Rightarrow> log_line" where
  "undo_message (RemoveClientIPs v n) = ErrorText ''Failed to undo vserver extension''"
| "undo_message c = ErrorText ''Failed to undo cluster extension''"

text \<open>
  The nodes to destroy whose \<^verbatim>\<open>destroy\<close> raises an \<^verbatim>\<open>Exception\<close>, and what the log holds of
  them: one line for each node, then one line with the \<^verbatim>\<open>vFXTServiceFailure\<close> that names
  them all, when there is one.
\<close>

definition destroy_raises :: "add_env \<Rightarrow> string \<Rightarrow> bool" where
  "destroy_raises env i =
     (case destroy_node env i of None \<Rightarrow> False | Some x \<Rightarrow> is_Exception x)"

definition destroy_errors :: "add_env \<Rightarrow> log_line list" where
  "destroy_errors env =
     (let failing = filter (destroy_raises env) (unjoined_nodes env)
      in map (\<lambda>i. ErrorWith (''Failed to destroy '' @ i @ '': '') (the (destroy_node env i))) failing
         @ (if failing = [] then []
            else [ErrorWith ''Failed to undo configuration: ''
                    (vFXTServiceFailure
                       (map (\<lambda>i. (''Failed to destroy instance '' @ i, the (destroy_node env i)))
                          failing))]))"

text \<open>
  For the undoing: the extension names the cluster or a vserver that the management plane
  knows; the bodies that a list of extensions gave to the cluster and to one vserver; the
  range of an extension is among those that the management plane shows.
\<close>

fun known_target :: "world \<Rightarrow> extension \<Rightarrow> bool" where
  "known_target w (OnCluster b) = True"
| "known_target w (OnVserver v b) = (v \<in> fst ` set (vservers w))"

fun cluster_bodies :: "extension list \<Rightarrow> range_body list" where
  "cluster_bodies [] = []"
| "cluster_bodies (OnCluster b # xs) = b # cluster_bodies xs"
| "cluster_bodies (OnVserver v b # xs) = cluster_bodies xs"

fun vserver_bodies :: "string \<Rightarrow> extension list \<Rightarrow> range_body list" where
  "vserver_bodies u [] = []"
| "vserver_bodies u (OnCluster b # xs) = vserver_bodies u xs"
| "vserver_bodies u (OnVserver v b # xs) =
     (if v = u then b # vserver_bodies u xs else vserver_bodies u xs)"

fun present :: "add_env \<Rightarrow> world \<Rightarrow> extension \<Rightarrow> bool" where
  "present env w (OnCluster b) = (named env b \<in> set (clusterIPs w))"
| "present env w (OnVserver v b) =
     (v \<in> fst ` set (vservers w) \<and> named env b \<in> set (client_ranges w v))"

text \<open>A cluster of two nodes with one vserver, and a run that adds one node to it.\<close>

definition example_world :: world where
  "example_world =
     \<lparr> clusterIPs = [\<lparr> firstIP = 20, netmask = ''255.255.255.0'', lastIP = 21, rname = ''cluster0'' \<rparr>],
       vservers = [(''vserver'', [\<lparr> firstIP = 30, netmask = ''255.255.255.0'', lastIP = 31,
                                   rname = ''client0'' \<rparr>])],
       mgmtIP = 10, requests = [], logged = [] \<rparr>"

definition example_env :: add_env where
  "example_env =
     \<lparr> fault = (\<lambda>c. None),
       activity = (\<lambda>c. (''success'', [])),
       range_name = (\<lambda>b. ''range-'' @ str_nat (firstIP b)),
       nodes0 = [''node-1'', ''node-2''],
       max_nodes = 3,
       cluster_ips_per_node = 1,
       allocate_private = False,
       custom_range = None,
       available = ([40, 41], ''255.255.255.0''),
       skip_cleanup = False,
       node_phase = Some (vFXTConfigurationException ''Timed out waiting for 1 node(s) to join.''),
       expected_nodes = [''node-1'', ''node-2'', ''node-3''],
       joined_nodes = [''node-1'', ''node-2''],
       node_address = (\<lambda>i. ''10.0.0.'' @ i),
       unconfigured_nodes = [],
       destroy_node = (\<lambda>i. None) \<rparr>"

text \<open>
  The same run when the new node cannot be destroyed and the removal of the cluster range
  ends with the status \<^verbatim>\<open>'failure'\<close> at the second poll of its activity.
\<close>

definition undo_fails_env :: add_env where
  "undo_fails_env =
     example_env
       \<lparr> activity :=
           (\<lambda>c. case c of
                  RemoveClusterIPs n \<Rightarrow>
                    (''4e2f'', [Inr [(''state'', ''running'')], Inr [(''status'', ''failure'')]])
                | _ \<Rightarrow> (''success'', [])),
         destroy_node := (\<lambda>i. Some (PyException ''instance is locked'')) \<rparr>"

text \<open>The example after its two extensions have been applied.\<close>

definition example_extended :: world where
  "example_extended =
     \<lparr> clusterIPs = [\<lparr> firstIP = 20, netmask = ''255.255.255.0'', lastIP = 21, rname = ''cluster0'' \<rparr>,
                     \<lparr> firstIP = 40, netmask = ''255.255.255.0'', lastIP = 40, rname = ''range-40'' \<rparr>],
       vservers = [(''vserver'', [\<lparr> firstIP = 30, netmask = ''255.255.255.0'', lastIP = 31,
                                   rname = ''client0'' \<rparr>,
                                 \<lparr> firstIP = 41, netmask = ''255.255.255.0'', lastIP = 41,
                                   rname = ''range-41'' \<rparr>])],
       mgmtIP = 10,
       requests = [AddClusterIPs \<lparr> firstIP = 40, netmask = ''255.255.255.0'', lastIP = 40 \<rparr>,
                   AddClientIPs ''vserver'' \<lparr> firstIP = 41, netmask = ''255.255.255.0'', lastIP = 41 \<rparr>],
       logged = [] \<rparr>"

section \<open>Theorems\<close>

subsection \<open>Address arithmetic\<close>

text \<open>
  Claim C8. For current node count \<open>n\<close>, nodes to add \<open>k\<close>, cluster addresses per node
  \<open>c\<close> and \<open>u\<close> cluster addresses in use, add-nodes computes
  \<open>max 0 ((n + k) * c - u)\<close> additional cluster addresses; the vserver need is computed
  the same way from the vserver count and the vserver addresses in use, the private need is
  \<open>k\<close> exactly when the backend allocates private addresses, and the request is their sum.
  With \<open>n = 3\<close>, \<open>k = 2\<close>, \<open>c = 2\<close>, \<open>u = 4\<close> the cluster need is 6.
\<close>

theorem add_nodes_address_math:
  "need_cluster (compute_needs n k c v uv u ap) = max 0 ((n + k) * c - u)
   \<and> need_vserver (compute_needs n k c v uv u ap) = max 0 ((n + k) * v - uv)
   \<and> need_private (compute_needs n k c v uv u ap) = (if ap then k else 0)
   \<and> ip_count (compute_needs n k c v uv u ap) =
        max 0 ((n + k) * v - uv) + max 0 ((n + k) * c - u) + (if ap then k else 0)
   \<and> need_cluster (compute_needs 3 2 2 v uv 4 ap) = 6"
  by (simp add: compute_needs_def Let_def max_def)

subsection \<open>Cluster names\<close>

text \<open>The matcher decides the language: derivatives are sound and complete.\<close>

lemma Nil_in_conc: "([] \<in> conc A B) = ([] \<in> A \<and> [] \<in> B)"
  by (auto simp: conc_def)

lemma Cons_in_conc:
  "(c # w \<in> conc A B) =
     ((\<exists>u v. w = u @ v \<and> c # u \<in> A \<and> v \<in> B) \<or> ([] \<in> A \<and> c # w \<in> B))"
  by (auto simp: conc_def Cons_eq_append_conv)

lemma in_conc: "(w \<in> conc A B) = (\<exists>u v. w = u @ v \<and> u \<in> A \<and> v \<in> B)"
  by (auto simp: conc_def)

lemma Nil_in_star: "[] \<in> star A"
proof -
  have "[] \<in> pow A 0" by simp
  then show ?thesis unfolding star_def by blast
qed

lemma Cons_in_pow:
  "c # w \<in> pow A n \<Longrightarrow> \<exists>u v. w = u @ v \<and> c # u \<in> A \<and> v \<in> star A"
proof (induction n)
  case 0
  then show ?case by simp
next
  case (Suc n)
  from Suc.prems have "(\<exists>u v. w = u @ v \<and> c # u \<in> A \<and> v \<in> pow A n) \<or> ([] \<in> A \<and> c # w \<in> pow A n)"
    by (simp add: Cons_in_conc)
  then show ?case
  proof
    assume "\<exists>u v. w = u @ v \<and> c # u \<in> A \<and> v \<in> pow A n"
    then show ?thesis unfolding star_def by blast
  next
    assume "[] \<in> A \<and> c # w \<in> pow A n"
    then show ?thesis using Suc.IH by simp
  qed
qed

lemma Cons_in_star:
  "(c # w \<in> star A) = (\<exists>u v. w = u @ v \<and> c # u \<in> A \<and> v \<in> star A)"
proof
  assume "c # w \<in> star A"
  then obtain n where "c # w \<in> pow A n" unfolding star_def by blast
  then show "\<exists>u v. w = u @ v \<and> c # u \<in> A \<and> v \<in> star A" by (rule Cons_in_pow)
next
  assume "\<exists>u v. w = u @ v \<and> c # u \<in> A \<and> v \<in> star A"
  then obtain u v n where w: "w = u @ v" and u: "c # u \<in> A" and v: "v \<in> pow A n"
    unfolding star_def by blast
  have "(c # u) @ v \<in> conc A (pow A n)" unfolding conc_def using u v by blast
  then have "c # w \<in> pow A (Suc n)" using w by simp
  then show "c # w \<in> star A" unfolding star_def by blast
qed

lemma nullable_lang: "nullable r = ([] \<in> lang r)"
  by (induction r) (simp_all add: Nil_in_conc Nil_in_star)

lemma deriv_lang: "(w \<in> lang (deriv c r)) = (c # w \<in> lang r)"
proof (induction r arbitrary: w)
  case (Seq r1 r2)
  have left: "(w \<in> conc (lang (deriv c r1)) (lang r2)) =
      (\<exists>u v. w = u @ v \<and> c # u \<in> lang r1 \<and> v \<in> lang r2)"
    by (simp add: in_conc Seq.IH)
  show ?case
    by (simp add: nullable_lang left Seq.IH Cons_in_conc [of c w "lang r1" "lang r2"])
next
  case (Star r)
  have "(w \<in> conc (lang (deriv c r)) (star (lang r))) =
      (\<exists>u v. w = u @ v \<and> c # u \<in> lang r \<and> v \<in> star (lang r))"
    by (simp add: in_conc Star.IH)
  then show ?case by (simp add: Cons_in_star [of c w "lang r"])
qed simp_all

lemma matches_lang: "matches r s = (s \<in> lang r)"
  by (induction s arbitrary: r) (simp_all add: nullable_lang deriv_lang)

lemma re_search_anchored_lang:
  "re_search_anchored r s = (s \<in> lang r \<or> (\<exists>t. s = t @ [newline] \<and> t \<in> lang r))"
proof -
  have "(s \<noteq> [] \<and> last s = newline \<and> butlast s \<in> lang r) = (\<exists>t. s = t @ [newline] \<and> t \<in> lang r)"
    by (cases s rule: rev_cases) auto
  then show ?thesis by (simp add: re_search_anchored_def matches_lang)
qed

lemma valid_cluster_name_a: "valid_cluster_name ''a''"
  by (simp add: valid_cluster_name_def re_search_anchored_def cluster_name_re_def in_class_def)

lemma valid_cluster_name_upper_A: "\<not> valid_cluster_name ''A''"
  by (simp add: valid_cluster_name_def re_search_anchored_def cluster_name_re_def in_class_def
      newline_def)

lemma valid_cluster_name_a_dash_1: "valid_cluster_name ''a-1''"
  by (simp add: valid_cluster_name_def re_search_anchored_def cluster_name_re_def in_class_def)

lemma valid_cluster_name_empty: "\<not> valid_cluster_name []"
  by (simp add: valid_cluster_name_def)



subsection \<open>Health check\<close>

lemma last_reset_Nil: "last_reset st t [] = t"
  by (simp add: last_reset_def)

lemma last_reset_Cons:
  "last_reset st t (q # qs) = last_reset st (if holds st q then t else clock q) qs"
  by (simp add: last_reset_def split: list.splits)

lemma healthcheck_loop_Returned:
  "healthcheck_loop st d conds r t n0 polls = Returned n \<Longrightarrow>
   \<exists>pre p post. polls = pre @ p # post \<and> n = n0 + length pre + 1 \<and> holds st p
      \<and> d \<le> clock p - last_reset st t pre"
proof (induction polls arbitrary: r t n0)
  case Nil
  then show ?case by simp
next
  case (Cons q qs)
  show ?case
  proof (cases "holds st q \<and> d \<le> clock q - t")
    case True
    have "q # qs = [] @ q # qs \<and> Suc n0 = n0 + length ([]::hc_poll list) + 1 \<and> holds st q
        \<and> d \<le> clock q - last_reset st t []"
      using True by (simp add: last_reset_Nil)
    moreover have "n = Suc n0"
      using Cons.prems True by (simp split: option.splits)
    ultimately show ?thesis by blast
  next
    case False
    let ?t' = "if holds st q then t else clock q"
    from Cons.prems False
    have rec: "healthcheck_loop st d conds (r - 1) ?t' (Suc n0) qs = Returned n"
      by (auto simp: Let_def split: option.splits if_splits)
    from Cons.IH [OF rec] obtain pre p post where
      h: "qs = pre @ p # post" "n = Suc n0 + length pre + 1" "holds st p"
         "d \<le> clock p - last_reset st ?t' pre"
      by blast
    have "q # qs = (q # pre) @ p # post \<and> n = n0 + length (q # pre) + 1 \<and> holds st p
        \<and> d \<le> clock p - last_reset st t (q # pre)"
      using h by (simp add: last_reset_Cons)
    then show ?thesis by blast
  qed
qed

lemma healthcheck_loop_exhaust:
  "0 < r \<Longrightarrow> nat r \<le> length polls \<Longrightarrow>
   \<forall>p \<in> set polls. uncaught (alert_rpc p) = None \<Longrightarrow>
   \<forall>k. healthcheck_loop st d conds r t n0 polls \<noteq> Returned k \<Longrightarrow>
   healthcheck_loop st d conds r t n0 polls = Raised (n0 + nat r) (healthcheck_failure st conds)"
proof (induction polls arbitrary: r t n0)
  case Nil
  then show ?case by simp
next
  case (Cons q qs)
  have nu: "uncaught (alert_rpc q) = None" using Cons.prems(3) by simp
  have nosucc: "\<not> (holds st q \<and> d \<le> clock q - t)"
    using Cons.prems(4) nu by auto
  show ?case
  proof (cases "r = 1")
    case True
    then show ?thesis using nu nosucc by (auto simp: Let_def)
  next
    case False
    let ?t' = "if holds st q then t else clock q"
    have eq: "healthcheck_loop st d conds r t n0 (q # qs)
        = healthcheck_loop st d conds (r - 1) ?t' (Suc n0) qs"
      using nu nosucc False by (auto simp: Let_def)
    have "healthcheck_loop st d conds (r - 1) ?t' (Suc n0) qs
        = Raised (Suc n0 + nat (r - 1)) (healthcheck_failure st conds)"
    proof (rule Cons.IH)
      show "0 < r - 1" using Cons.prems(1) False by simp
      show "nat (r - 1) \<le> length qs" using Cons.prems(1,2) by simp
      show "\<forall>p\<in>set qs. uncaught (alert_rpc p) = None" using Cons.prems(3) by simp
      show "\<forall>k. healthcheck_loop st d conds (r - 1) ?t' (Suc n0) qs \<noteq> Returned k"
        using Cons.prems(4) eq by simp
    qed
    moreover have "Suc n0 + nat (r - 1) = n0 + nat r" using Cons.prems(1) by simp
    ultimately show ?thesis using eq by simp
  qed
qed

lemma healthcheck_loop_all_hold:
  "\<forall>p \<in> set polls. holds st p \<and> uncaught (alert_rpc p) = None \<Longrightarrow>
   k < length polls \<Longrightarrow> d \<le> clock (polls ! k) - t \<Longrightarrow> r \<le> 0 \<or> int k < r \<Longrightarrow>
   \<exists>n. n0 < n \<and> n \<le> n0 + k + 1 \<and> healthcheck_loop st d conds r t n0 polls = Returned n"
proof (induction polls arbitrary: k r n0)
  case Nil
  then show ?case by simp
next
  case (Cons q qs)
  have hq: "holds st q" "uncaught (alert_rpc q) = None" using Cons.prems(1) by auto
  show ?case
  proof (cases "d \<le> clock q - t")
    case True
    then have "healthcheck_loop st d conds r t n0 (q # qs) = Returned (Suc n0)"
      using hq by simp
    then show ?thesis by auto
  next
    case False
    then obtain k' where k': "k = Suc k'" using Cons.prems(3) by (cases k) auto
    have r1: "r - 1 \<noteq> 0" "r - 1 \<le> 0 \<or> int k' < r - 1"
      using Cons.prems(4) k' by auto
    have eq: "healthcheck_loop st d conds r t n0 (q # qs)
        = healthcheck_loop st d conds (r - 1) t (Suc n0) qs"
      using hq False r1(1) by (simp add: Let_def)
    have "\<exists>n. Suc n0 < n \<and> n \<le> Suc n0 + k' + 1
        \<and> healthcheck_loop st d conds (r - 1) t (Suc n0) qs = Returned n"
    proof (rule Cons.IH)
      show "\<forall>p\<in>set qs. holds st p \<and> uncaught (alert_rpc p) = None"
        using Cons.prems(1) by simp
      show "k' < length qs" using Cons.prems(2) k' by simp
      show "d \<le> clock (qs ! k') - t" using Cons.prems(3) k' by simp
      show "r - 1 \<le> 0 \<or> int k' < r - 1" by (rule r1(2))
    qed
    then show ?thesis using eq k' by auto
  qed
qed


lemma holds_reported [simp]:
  "holds st (reported c t) = (c \<in> set (acceptable_states st))"
  by (simp add: holds_def alertstats_def reported_def)

lemma uncaught_reported [simp]: "uncaught (alert_rpc (reported c t)) = None"
  by (simp add: uncaught_def reported_def)

lemma clock_reported [simp]: "clock (reported c t) = t"
  by (simp add: reported_def)

text \<open>
  Claim C2, as the code has it. \<^verbatim>\<open>duration\<close> counts seconds of the clock, not polls: the
  wait returns only at a poll where the condition holds and at least \<open>d\<close> seconds have
  passed since the most recent poll at which it did not hold (since the start of the wait
  when it held at every poll); a poll at which it does not hold moves that start to its own
  clock. With polls one second apart, two holding polls, one that does not hold and three
  holding ones with \<open>d = 3\<close> return at the sixth poll. When the retries are used up,
  which happens at poll number \<open>r\<close> for \<open>r > 0\<close>, and the diagnostic query answers, the
  wait raises a status failure that names the conditions whose severity is not the
  requested state.
\<close>

theorem healthcheck_durable_seconds:
  "(wait_for_healthcheck st r d None t0 conds polls = Returned n \<longrightarrow>
      (\<exists>pre p post. polls = pre @ p # post \<and> n = length pre + 1 \<and> holds st p
          \<and> d \<le> clock p - last_reset st t0 pre))
   \<and> (0 < r \<and> nat r \<le> length polls \<and> (\<forall>p \<in> set polls. uncaught (alert_rpc p) = None)
        \<and> (\<forall>k. wait_for_healthcheck st r d None t0 conds polls \<noteq> Returned k) \<longrightarrow>
      wait_for_healthcheck st r d None t0 conds polls
        = Raised (nat r) (healthcheck_failure st conds))
   \<and> healthcheck_failure st (Inr cs) =
       vFXTStatusFailure (''Healthcheck for state '' @ st @ '' failed'' @
         (if filter (\<lambda>c. severity c \<noteq> st) cs = [] then []
          else '': '' @ repr_str_list (map cond_name (filter (\<lambda>c. severity c \<noteq> st) cs))))
   \<and> wait_for_healthcheck ''green'' 100 3 None 0 conds
        [reported ''green'' 1, reported ''green'' 2, reported ''red'' 3,
         reported ''green'' 4, reported ''green'' 5, reported ''green'' 6] = Returned 6"
proof -
  have a: "wait_for_healthcheck st r d None t0 conds polls = Returned n \<longrightarrow>
      (\<exists>pre p post. polls = pre @ p # post \<and> n = length pre + 1 \<and> holds st p
          \<and> d \<le> clock p - last_reset st t0 pre)"
    using healthcheck_loop_Returned [of st d conds r t0 0 polls n]
    by (simp add: wait_for_healthcheck_def)
  have b: "0 < r \<and> nat r \<le> length polls \<and> (\<forall>p \<in> set polls. uncaught (alert_rpc p) = None)
        \<and> (\<forall>k. wait_for_healthcheck st r d None t0 conds polls \<noteq> Returned k) \<longrightarrow>
      wait_for_healthcheck st r d None t0 conds polls
        = Raised (nat r) (healthcheck_failure st conds)"
    using healthcheck_loop_exhaust [of r polls st d conds t0 0]
    by (simp add: wait_for_healthcheck_def)
  have c: "healthcheck_failure st (Inr cs) =
       vFXTStatusFailure (''Healthcheck for state '' @ st @ '' failed'' @
         (if filter (\<lambda>c. severity c \<noteq> st) cs = [] then []
          else '': '' @ repr_str_list (map cond_name (filter (\<lambda>c. severity c \<noteq> st) cs))))"
    by (simp add: healthcheck_failure_def Let_def)
  have e: "wait_for_healthcheck ''green'' 100 3 None 0 conds
        [reported ''green'' 1, reported ''green'' 2, reported ''red'' 3,
         reported ''green'' 4, reported ''green'' 5, reported ''green'' 6] = Returned 6"
    by (simp add: wait_for_healthcheck_def acceptable_states_def)
  from a b c e show ?thesis by blast
qed

text \<open>
  Claim C2 as stated, in polls, fails: when the poll after the drop comes three seconds
  later, the wait with \<open>d = 3\<close> returns at that poll, the first holding one after the
  reset, although the three polls before it did not all hold.
\<close>

theorem healthcheck_slow_polls_counterexample:
  "wait_for_healthcheck ''green'' 100 3 None 0 (Inr [])
     [reported ''green'' 1, reported ''green'' 2, reported ''red'' 3, reported ''green'' 6]
     = Returned 4
   \<and> \<not> consecutive_holding ''green'' 3
     [reported ''green'' 1, reported ''green'' 2, reported ''red'' 3, reported ''green'' 6] 4"
  by (simp add: wait_for_healthcheck_def consecutive_holding_def acceptable_states_def)


text \<open>
  Both hypotheses of the theorem are met by runs of the code: a wait that returns at its
  fourth poll, and one whose two retries are used up.
\<close>

theorem healthcheck_durable_seconds_witness:
  "(\<exists>pre p post.
       [reported ''green'' 1, reported ''green'' 2, reported ''red'' 3, reported ''green'' 6]
         = pre @ p # post \<and> (4::nat) = length pre + 1 \<and> holds ''green'' p
       \<and> 3 \<le> clock p - last_reset ''green'' 0 pre)
   \<and> wait_for_healthcheck ''yellow'' 2 3 None 0
         (Inr [\<lparr>cond_name = ''HighLoad'', severity = ''red''\<rparr>])
         [reported ''red'' 1, reported ''red'' 2]
       = Raised 2 (vFXTStatusFailure
           (''Healthcheck for state yellow failed: '' @ repr_str_list [''HighLoad'']))"
proof -
  let ?ps = "[reported ''green'' 1, reported ''green'' 2, reported ''red'' 3, reported ''green'' 6]"
  let ?qs = "[reported ''red'' 1, reported ''red'' 2]"
  let ?cs = "[\<lparr>cond_name = ''HighLoad'', severity = ''red''\<rparr>]"
  have r4: "wait_for_healthcheck ''green'' 100 3 None 0 (Inr []) ?ps = Returned 4"
    by (simp add: wait_for_healthcheck_def acceptable_states_def)
  have "wait_for_healthcheck ''green'' 100 3 None 0 (Inr []) ?ps = Returned 4 \<longrightarrow>
      (\<exists>pre p post. ?ps = pre @ p # post \<and> (4::nat) = length pre + 1 \<and> holds ''green'' p
          \<and> 3 \<le> clock p - last_reset ''green'' 0 pre)"
    using healthcheck_durable_seconds [of "''green''" 100 3 0 "Inr []" ?ps 4] by (rule conjunct1)
  with r4 have first: "\<exists>pre p post. ?ps = pre @ p # post \<and> (4::nat) = length pre + 1
      \<and> holds ''green'' p \<and> 3 \<le> clock p - last_reset ''green'' 0 pre"
    by (rule rev_mp)
  have ev: "wait_for_healthcheck ''yellow'' 2 3 None 0 (Inr ?cs) ?qs
      = Raised 2 (healthcheck_failure ''yellow'' (Inr ?cs))"
    by (simp add: wait_for_healthcheck_def acceptable_states_def)
  have hyp: "0 < (2::int) \<and> nat 2 \<le> length ?qs \<and> (\<forall>p \<in> set ?qs. uncaught (alert_rpc p) = None)
      \<and> (\<forall>k. wait_for_healthcheck ''yellow'' 2 3 None 0 (Inr ?cs) ?qs \<noteq> Returned k)"
    by (simp add: ev)
  have "0 < (2::int) \<and> nat 2 \<le> length ?qs \<and> (\<forall>p \<in> set ?qs. uncaught (alert_rpc p) = None)
      \<and> (\<forall>k. wait_for_healthcheck ''yellow'' 2 3 None 0 (Inr ?cs) ?qs \<noteq> Returned k) \<longrightarrow>
      wait_for_healthcheck ''yellow'' 2 3 None 0 (Inr ?cs) ?qs
        = Raised (nat 2) (healthcheck_failure ''yellow'' (Inr ?cs))"
    using healthcheck_durable_seconds [of "''yellow''" 2 3 0 "Inr ?cs" ?qs 0 ?cs]
    by (rule conjunct1 [OF conjunct2])
  with hyp have "wait_for_healthcheck ''yellow'' 2 3 None 0 (Inr ?cs) ?qs
        = Raised (nat 2) (healthcheck_failure ''yellow'' (Inr ?cs))"
    by (rule rev_mp)
  moreover have "healthcheck_failure ''yellow'' (Inr ?cs)
      = vFXTStatusFailure (''Healthcheck for state yellow failed: '' @ repr_str_list [''HighLoad''])"
    by (simp add: healthcheck_failure_def)
  ultimately have second: "wait_for_healthcheck ''yellow'' 2 3 None 0 (Inr ?cs) ?qs
      = Raised 2 (vFXTStatusFailure
           (''Healthcheck for state yellow failed: '' @ repr_str_list [''HighLoad'']))"
    by simp
  from first second show ?thesis by (rule conjI)
qed

lemma reports_holds:
  "reports c p \<Longrightarrow> c \<in> set (acceptable_states st) \<Longrightarrow>
   holds st p \<and> uncaught (alert_rpc p) = None"
  by (auto simp: reports_def holds_def alertstats_def uncaught_def split: sum.splits)

text \<open>
  Claim C10. \<^verbatim>\<open>green\<close> is acceptable for every requested state, and \<^verbatim>\<open>yellow\<close> when
  \<^verbatim>\<open>red\<close> is requested; among the three severities a reported one is acceptable exactly
  when it is the requested one or better. So a wait for \<^verbatim>\<open>red\<close> or \<^verbatim>\<open>yellow\<close> on a
  cluster whose every poll reports a strictly better severity returns, at the latest at
  the first poll \<open>k\<close> whose clock is \<open>d\<close> seconds past the start, provided the retries
  last until that poll.
\<close>

theorem healthcheck_accepts_better_severity:
  "''green'' \<in> set (acceptable_states st)
   \<and> ''yellow'' \<in> set (acceptable_states ''red'')
   \<and> (st \<in> {''red'', ''yellow'', ''green''} \<and> c \<in> {''red'', ''yellow'', ''green''} \<longrightarrow>
        (c \<in> set (acceptable_states st)) = (severity_rank st \<le> severity_rank c))
   \<and> ((st = ''red'' \<or> st = ''yellow'') \<and> (c = ''yellow'' \<or> c = ''green'')
        \<and> severity_rank st < severity_rank c
        \<and> (\<forall>p \<in> set polls. reports c p) \<and> k < length polls
        \<and> d \<le> clock (polls ! k) - t0 \<and> (r \<le> 0 \<or> int k < r) \<longrightarrow>
        (\<exists>n. 0 < n \<and> n \<le> k + 1
           \<and> wait_for_healthcheck st r d None t0 conds polls = Returned n))"
proof -
  have p1: "''green'' \<in> set (acceptable_states st)"
    by (simp add: acceptable_states_def)
  have p2: "''yellow'' \<in> set (acceptable_states ''red'')"
    by (simp add: acceptable_states_def)
  have p3: "st \<in> {''red'', ''yellow'', ''green''} \<and> c \<in> {''red'', ''yellow'', ''green''} \<longrightarrow>
        (c \<in> set (acceptable_states st)) = (severity_rank st \<le> severity_rank c)"
    by (auto simp: acceptable_states_def)
  have p4: "(st = ''red'' \<or> st = ''yellow'') \<and> (c = ''yellow'' \<or> c = ''green'')
        \<and> severity_rank st < severity_rank c
        \<and> (\<forall>p \<in> set polls. reports c p) \<and> k < length polls
        \<and> d \<le> clock (polls ! k) - t0 \<and> (r \<le> 0 \<or> int k < r) \<longrightarrow>
        (\<exists>n. 0 < n \<and> n \<le> k + 1
           \<and> wait_for_healthcheck st r d None t0 conds polls = Returned n)"
  proof
    assume h: "(st = ''red'' \<or> st = ''yellow'') \<and> (c = ''yellow'' \<or> c = ''green'')
        \<and> severity_rank st < severity_rank c
        \<and> (\<forall>p \<in> set polls. reports c p) \<and> k < length polls
        \<and> d \<le> clock (polls ! k) - t0 \<and> (r \<le> 0 \<or> int k < r)"
    then have acc: "c \<in> set (acceptable_states st)"
      by (auto simp: acceptable_states_def split: if_splits)
    have all: "\<forall>p \<in> set polls. holds st p \<and> uncaught (alert_rpc p) = None"
      using h acc reports_holds by blast
    have "\<exists>n. 0 < n \<and> n \<le> 0 + k + 1 \<and> healthcheck_loop st d conds r t0 0 polls = Returned n"
      using healthcheck_loop_all_hold [OF all, of k d t0 r 0 conds] h by blast
    then show "\<exists>n. 0 < n \<and> n \<le> k + 1
           \<and> wait_for_healthcheck st r d None t0 conds polls = Returned n"
      by (simp add: wait_for_healthcheck_def)
  qed
  from p1 p2 p3 p4 show ?thesis by blast
qed

text \<open>A wait for \<^verbatim>\<open>red\<close> on a cluster that reports \<^verbatim>\<open>yellow\<close> meets the hypotheses.\<close>

theorem healthcheck_accepts_better_severity_witness:
  "(''yellow'' \<in> set (acceptable_states ''red'')) = (severity_rank ''red'' \<le> severity_rank ''yellow'')
   \<and> (\<exists>n. 0 < n \<and> n \<le> 2
        \<and> wait_for_healthcheck ''red'' 5 2 None 0 (Inr [])
             [reported ''yellow'' 1, reported ''yellow'' 2] = Returned n)"
proof -
  let ?ps = "[reported ''yellow'' 1, reported ''yellow'' 2]"
  note inst = healthcheck_accepts_better_severity [of "''red''" "''yellow''" ?ps 1 2 0 5 "Inr []"]
  have h3: "''red'' \<in> {''red'', ''yellow'', ''green''} \<and> ''yellow'' \<in> {''red'', ''yellow'', ''green''}"
    by simp
  have h4: "(''red'' = ''red'' \<or> ''red'' = ''yellow'') \<and> (''yellow'' = ''yellow'' \<or> ''yellow'' = ''green'')
        \<and> severity_rank ''red'' < severity_rank ''yellow''
        \<and> (\<forall>p \<in> set ?ps. reports ''yellow'' p) \<and> (1::nat) < length ?ps
        \<and> (2::int) \<le> clock (?ps ! 1) - 0 \<and> ((5::int) \<le> 0 \<or> int 1 < 5)"
    by (simp add: reports_def reported_def)
  from inst h3 have a: "(''yellow'' \<in> set (acceptable_states ''red''))
      = (severity_rank ''red'' \<le> severity_rank ''yellow'')"
    by blast
  from inst h4 have b: "\<exists>n. 0 < n \<and> n \<le> 1 + 1
        \<and> wait_for_healthcheck ''red'' 5 2 None 0 (Inr []) ?ps = Returned n"
    by blast
  from a b show ?thesis by (simp add: numeral_2_eq_2)
qed

subsection \<open>Waiting for nodes to join\<close>

lemma image_reset_Nil: "image_reset a t [] = t"
  by (simp add: image_reset_def)

lemma image_reset_Cons:
  "image_reset a t (q # qs) = image_reset a (if image_upgrading a q then jclock q else t) qs"
  by (simp add: image_reset_def split: list.splits)

lemma join_step_Continue:
  "join_step e a r s p = Continue r' s' \<Longrightarrow>
   (image_upgrading a p \<and> r' = r \<and> s' = jclock p)
   \<or> (\<not> image_upgrading a p \<and> r \<noteq> 0 \<and> r' = r - 1 \<and> s' = s)"
  by (auto simp: join_step_def Let_def split: option.splits if_splits)

lemma join_state_bounds:
  "0 \<le> r \<Longrightarrow> join_state e a r s pre = Some (c, s') \<Longrightarrow>
   0 \<le> c \<and> c \<le> r \<and> s' = image_reset a s pre"
proof (induction pre arbitrary: r s)
  case Nil
  then show ?case by (simp add: image_reset_Nil)
next
  case (Cons q qs)
  from Cons.prems(2) obtain r1 s1 where
    st: "join_step e a r s q = Continue r1 s1" and rest: "join_state e a r1 s1 qs = Some (c, s')"
    by (auto split: join_step_result.splits)
  from join_step_Continue [OF st] Cons.prems(1)
  have b: "0 \<le> r1" "r1 \<le> r" "s1 = (if image_upgrading a q then jclock q else s)"
    by auto
  from Cons.IH [OF b(1) rest] b show ?case
    by (simp add: image_reset_Cons)
qed

lemma join_loop_append:
  "join_state e a r s pre = Some (c, s') \<Longrightarrow>
   join_loop e a r s n (pre @ rest) = join_loop e a c s' (n + length pre) rest"
proof (induction pre arbitrary: r s n)
  case Nil
  then show ?case by simp
next
  case (Cons q qs)
  from Cons.prems obtain r1 s1 where
    st: "join_step e a r s q = Continue r1 s1" and rest: "join_state e a r1 s1 qs = Some (c, s')"
    by (auto split: join_step_result.splits)
  from Cons.IH [OF rest, of "Suc n"] st show ?case by simp
qed

lemma int_times_1_5_le: "0 \<le> c \<Longrightarrow> c \<le> r \<Longrightarrow> 2 * int_times_1_5 c \<le> 3 * r"
  by (simp add: int_times_1_5_def)

lemma join_step_too_long:
  "still_short e a p \<Longrightarrow> 0 \<le> c \<Longrightarrow> c \<le> r \<Longrightarrow> 3 * r < 2 * (jclock p - s) \<Longrightarrow>
   join_step e a c s p = Finish (Some (join_timeout e p))"
  using int_times_1_5_le [of c r]
  by (auto simp: join_step_def still_short_def Let_def)



lemma join_step_threshold:
  "still_short e a p \<Longrightarrow> int_times_1_5 c < jclock p - s \<Longrightarrow>
   join_step e a c s p = Finish (Some (join_timeout e p))"
  by (auto simp: join_step_def still_short_def Let_def)

lemma join_loop_timeout_after:
  "join_state e a r t0 pre = Some (c, s) \<Longrightarrow>
   join_step e a c s p = Finish (Some (join_timeout e p)) \<Longrightarrow>
   join_loop e a r t0 0 (pre @ p # post) = Raised (length pre + 1) (join_timeout e p)"
  by (simp add: join_loop_append)

text \<open>
  Claim C3, as the code has it. The elapsed time is counted from \<open>s\<close>, the start of the
  wait or the most recent pass that saw a node of the cluster upgrading its image, which
  restarts the clock. At a pass that still finds another node count than expected and no
  image upgrade, the wait raises its timeout when the elapsed seconds exceed \<open>1.5 * r\<close>
  for the retries \<open>r \<ge> 0\<close> it was called with, whatever the counter \<open>c\<close> has come down to;
  the test of the code is against \<open>int(1.5 * c)\<close>, which is never more.
\<close>

theorem join_wait_wall_clock:
  "(0 \<le> r \<and> int k0 < expected \<and> join_state expected addrs r t0 pre = Some (c, s)
      \<and> still_short expected addrs p \<and> 3 * r < 2 * (jclock p - s) \<longrightarrow>
      s = image_reset addrs t0 pre \<and> 0 \<le> c \<and> c \<le> r
      \<and> wait_for_nodes_to_join expected addrs r (Inr k0) t0 (pre @ p # post)
          = Raised (length pre + 1) (join_timeout expected p))
   \<and> (int k0 < expected \<and> join_state expected addrs r t0 pre = Some (c, s)
      \<and> still_short expected addrs p \<and> int_times_1_5 c < jclock p - s \<longrightarrow>
      wait_for_nodes_to_join expected addrs r (Inr k0) t0 (pre @ p # post)
          = Raised (length pre + 1) (join_timeout expected p))"
proof (intro conjI impI)
  assume h: "0 \<le> r \<and> int k0 < expected \<and> join_state expected addrs r t0 pre = Some (c, s)
      \<and> still_short expected addrs p \<and> 3 * r < 2 * (jclock p - s)"
  then have b: "0 \<le> c \<and> c \<le> r \<and> s = image_reset addrs t0 pre"
    using join_state_bounds [of r expected addrs t0 pre c s] by blast
  then show "s = image_reset addrs t0 pre" "0 \<le> c" "c \<le> r" by simp_all
  have "join_step expected addrs c s p = Finish (Some (join_timeout expected p))"
    using h b join_step_too_long [of expected addrs p c r s] by blast
  then have "join_loop expected addrs r t0 0 (pre @ p # post)
      = Raised (length pre + 1) (join_timeout expected p)"
    using h join_loop_timeout_after by blast
  then show "wait_for_nodes_to_join expected addrs r (Inr k0) t0 (pre @ p # post)
          = Raised (length pre + 1) (join_timeout expected p)"
    using h by (simp add: wait_for_nodes_to_join_def)
next
  assume h: "int k0 < expected \<and> join_state expected addrs r t0 pre = Some (c, s)
      \<and> still_short expected addrs p \<and> int_times_1_5 c < jclock p - s"
  then have "join_step expected addrs c s p = Finish (Some (join_timeout expected p))"
    using join_step_threshold by blast
  then have "join_loop expected addrs r t0 0 (pre @ p # post)
      = Raised (length pre + 1) (join_timeout expected p)"
    using h join_loop_timeout_after by blast
  then show "wait_for_nodes_to_join expected addrs r (Inr k0) t0 (pre @ p # post)
          = Raised (length pre + 1) (join_timeout expected p)"
    using h by (simp add: wait_for_nodes_to_join_def)
qed

lemma contains_image_upgrade: "contains ''image'' ''joining: upgrade the image''"
  by simp

lemma not_contains_image_started: "\<not> contains ''image'' ''joining: started''"
  by simp

lemma not_contains_image_almost: "\<not> contains ''image'' ''joining: almost done''"
  by simp

lemma join_step_waiting_started:
  "join_step 2 [''10.0.0.2'', ''10.0.0.3''] 600 0 (waiting_poll ''joining: started'' 100)
     = Continue 599 0"
  using not_contains_image_started
  by (simp add: join_step_def waiting_poll_def uncaught_def found_nodes_def image_upgrading_def
      int_times_1_5_def Let_def del: contains.simps)

lemma still_short_almost:
  "still_short 2 [''10.0.0.2'', ''10.0.0.3''] (waiting_poll ''joining: almost done'' t)"
  using not_contains_image_almost
  by (simp add: still_short_def waiting_poll_def uncaught_def found_nodes_def image_upgrading_def
      Let_def del: contains.simps)

text \<open>
  With \<^verbatim>\<open>retries=600\<close> and one retry used, a pass at second 901 raises the timeout, and so
  does one at second 899, where the counter stands at 599.
\<close>

theorem join_wait_wall_clock_witness:
  "wait_for_nodes_to_join 2 [''10.0.0.2'', ''10.0.0.3''] 600 (Inr 1) 0
      [waiting_poll ''joining: started'' 100, waiting_poll ''joining: almost done'' 901]
     = Raised 2 (vFXTConfigurationException ''Timed out waiting for 1 node(s) to join.'')
   \<and> wait_for_nodes_to_join 2 [''10.0.0.2'', ''10.0.0.3''] 600 (Inr 1) 0
      [waiting_poll ''joining: started'' 100, waiting_poll ''joining: almost done'' 899]
     = Raised 2 (vFXTConfigurationException ''Timed out waiting for 1 node(s) to join.'')"
proof -
  let ?a = "[''10.0.0.2'', ''10.0.0.3'']"
  let ?pre = "[waiting_poll ''joining: started'' 100]"
  have st: "join_state 2 ?a 600 0 ?pre = Some (599, 0)"
    by (simp add: join_step_waiting_started)
  have msg: "join_timeout 2 (waiting_poll ''joining: almost done'' t)
      = vFXTConfigurationException ''Timed out waiting for 1 node(s) to join.''" for t
    by (simp add: join_timeout_def found_nodes_def waiting_poll_def str_int_def digit_char_def)
  have h1: "(0::int) \<le> 600 \<and> int 1 < 2 \<and> join_state 2 ?a 600 0 ?pre = Some (599, 0)
      \<and> still_short 2 ?a (waiting_poll ''joining: almost done'' 901)
      \<and> 3 * 600 < 2 * (jclock (waiting_poll ''joining: almost done'' 901) - 0)"
    using st still_short_almost by (simp add: waiting_poll_def)
  have h2: "int 1 < 2 \<and> join_state 2 ?a 600 0 ?pre = Some (599, 0)
      \<and> still_short 2 ?a (waiting_poll ''joining: almost done'' 899)
      \<and> int_times_1_5 599 < jclock (waiting_poll ''joining: almost done'' 899) - 0"
    using st still_short_almost by (simp add: waiting_poll_def int_times_1_5_def)
  from join_wait_wall_clock [of 600 1 2 ?a 0 ?pre 599 0 "waiting_poll ''joining: almost done'' 901" "[]"] h1
  have a: "wait_for_nodes_to_join 2 ?a 600 (Inr 1) 0
      (?pre @ [waiting_poll ''joining: almost done'' 901])
     = Raised (length ?pre + 1) (join_timeout 2 (waiting_poll ''joining: almost done'' 901))"
    by blast
  from join_wait_wall_clock [of 600 1 2 ?a 0 ?pre 599 0 "waiting_poll ''joining: almost done'' 899" "[]"] h2
  have b: "wait_for_nodes_to_join 2 ?a 600 (Inr 1) 0
      (?pre @ [waiting_poll ''joining: almost done'' 899])
     = Raised (length ?pre + 1) (join_timeout 2 (waiting_poll ''joining: almost done'' 899))"
    by blast
  from a b show ?thesis by (simp add: msg)
qed

text \<open>
  Claim C3 as stated fails: called with \<^verbatim>\<open>retries=600\<close> at second 0, the wait sees an image
  upgrade at second 1000, finds the node count still short at second 1001, more than 900
  seconds into the wait, and does not abort; it returns when the node has joined.
\<close>

theorem join_wait_image_upgrade_counterexample:
  "wait_for_nodes_to_join 2 [''10.0.0.2'', ''10.0.0.3''] 600 (Inr 1) 0
      [waiting_poll ''joining: upgrade the image'' 1000,
       waiting_poll ''joining: almost done'' 1001, joined_poll 1002]
     = Returned 3
   \<and> 600 * 3 < 2 * (jclock (waiting_poll ''joining: almost done'' 1001) - 0)
   \<and> still_short 2 [''10.0.0.2'', ''10.0.0.3''] (waiting_poll ''joining: almost done'' 1001)"
proof -
  have s1: "join_step 2 [''10.0.0.2'', ''10.0.0.3''] 600 0
      (waiting_poll ''joining: upgrade the image'' 1000) = Continue 600 1000"
    using contains_image_upgrade
    by (simp add: join_step_def waiting_poll_def uncaught_def found_nodes_def image_upgrading_def
        Let_def del: contains.simps)
  have s2: "join_step 2 [''10.0.0.2'', ''10.0.0.3''] 600 1000
      (waiting_poll ''joining: almost done'' 1001) = Continue 599 1000"
    using not_contains_image_almost
    by (simp add: join_step_def waiting_poll_def uncaught_def found_nodes_def image_upgrading_def
        int_times_1_5_def Let_def del: contains.simps)
  have s3: "join_step 2 [''10.0.0.2'', ''10.0.0.3''] 599 1000 (joined_poll 1002) = Finish None"
    by (simp add: join_step_def joined_poll_def uncaught_def found_nodes_def)
  have run: "wait_for_nodes_to_join 2 [''10.0.0.2'', ''10.0.0.3''] 600 (Inr 1) 0
      [waiting_poll ''joining: upgrade the image'' 1000,
       waiting_poll ''joining: almost done'' 1001, joined_poll 1002] = Returned 3"
    by (simp add: wait_for_nodes_to_join_def s1 s2 s3)
  have late: "600 * 3 < 2 * (jclock (waiting_poll ''joining: almost done'' 1001) - 0)"
    by (simp add: waiting_poll_def)
  from run late still_short_almost show ?thesis by blast
qed

subsection \<open>Parallel calls\<close>

lemma mset_concat_map:
  "mset (concat (map f zs)) = sum_mset (image_mset (\<lambda>z. mset (f z)) (mset zs))"
  by (induction zs) simp_all

lemma mset_concat_map_cong:
  assumes "mset xs = mset ys"
  shows "mset (concat (map f xs)) = mset (concat (map f ys))"
  unfolding mset_concat_map assms ..

lemma map_nth_upt: "map (\<lambda>i. g (xs ! i)) [0 ..< length xs] = map g xs"
  by (rule nth_equalityI) simp_all

lemma failed_any_order:
  assumes "mset finished = mset [0 ..< length sis]"
  shows "mset (concat (map (\<lambda>i. thread_cb m (sis ! i)) finished)) = mset (failures m sis)"
proof -
  have "mset (concat (map (\<lambda>i. thread_cb m (sis ! i)) finished))
      = mset (concat (map (\<lambda>i. thread_cb m (sis ! i)) [0 ..< length sis]))"
    using assms by (rule mset_concat_map_cong)
  then show ?thesis by (simp add: failures_def map_nth_upt)
qed

lemma invoked_any_order:
  assumes "mset finished = mset [0 ..< length sis]"
  shows "mset (map (\<lambda>i. fst (sis ! i)) finished) = mset (map fst sis)"
proof -
  have "mset (map (\<lambda>i. fst (sis ! i)) finished) = image_mset (\<lambda>i. fst (sis ! i)) (mset finished)"
    by simp
  also have "\<dots> = mset (map (\<lambda>i. fst (sis ! i)) [0 ..< length sis])"
    using assms by simp
  finally show ?thesis by (simp add: map_nth_upt)
qed

lemma failures_entries:
  "\<forall>w \<in> set sis. snd w \<noteq> Some KeyboardInterrupt \<Longrightarrow>
   failures m sis =
     map (\<lambda>w. (''Failed to '' @ m @ '' instance '' @ fst w, the (snd w)))
         (filter (\<lambda>w. snd w \<noteq> None) sis)"
  by (induction sis) (auto simp: failures_def thread_cb_def is_Exception_def split: option.splits)

text \<open>
  Claim C4. Whatever the order in which the threads finish, \<^verbatim>\<open>parallel_call\<close> makes the
  call on every node handle, and after all threads have ended it returns normally when no
  call failed and otherwise raises one \<^verbatim>\<open>vFXTServiceFailure\<close> that carries exactly the
  pairs of description and exception of the handles whose call failed, one for each (in
  the order in which they failed). A failure is an \<^verbatim>\<open>Exception\<close>, which is what a call in a
  worker thread can raise.
\<close>

theorem parallel_call_aggregates:
  assumes "mset finished = mset [0 ..< length sis]"
    and "\<forall>w \<in> set sis. snd w \<noteq> Some KeyboardInterrupt"
  shows "mset (invoked (parallel_call sis m finished)) = mset (map fst sis)
    \<and> (if filter (\<lambda>w. snd w \<noteq> None) sis = []
        then raised (parallel_call sis m finished) = None
        else (\<exists>failed. raised (parallel_call sis m finished) = Some (vFXTServiceFailure failed)
                \<and> mset failed =
                    mset (map (\<lambda>w. (''Failed to '' @ m @ '' instance '' @ fst w, the (snd w)))
                              (filter (\<lambda>w. snd w \<noteq> None) sis))
                \<and> length failed = length (filter (\<lambda>w. snd w \<noteq> None) sis)))"
proof -
  let ?failed = "concat (map (\<lambda>i. thread_cb m (sis ! i)) finished)"
  let ?want = "map (\<lambda>w. (''Failed to '' @ m @ '' instance '' @ fst w, the (snd w)))
                   (filter (\<lambda>w. snd w \<noteq> None) sis)"
  have inv: "mset (invoked (parallel_call sis m finished)) = mset (map fst sis)"
    using invoked_any_order [OF assms(1)] by (simp add: parallel_call_def Let_def)
  have ms: "mset ?failed = mset ?want"
    using failed_any_order [OF assms(1), of m] failures_entries [OF assms(2), of m] by simp
  then have len: "length ?failed = length ?want"
    by (rule mset_eq_length)
  have r: "raised (parallel_call sis m finished)
      = (if ?failed \<noteq> [] then Some (vFXTServiceFailure ?failed) else None)"
    by (simp add: parallel_call_def Let_def)
  show ?thesis
  proof (cases "filter (\<lambda>w. snd w \<noteq> None) sis = []")
    case True
    then have "?want = []" by (simp only: map_is_Nil_conv)
    then have "mset ?failed = {#}" using ms by (simp only: mset_zero_iff)
    then have "?failed = []" by (simp only: mset_zero_iff)
    then show ?thesis using inv r True by simp
  next
    case False
    then have "?want \<noteq> []" by (simp only: map_is_Nil_conv not_False_eq_True)
    then have "mset ?failed \<noteq> {#}" using ms by (simp only: mset_zero_iff not_False_eq_True)
    then have "?failed \<noteq> []" by (simp only: mset_zero_iff not_False_eq_True)
    then have "raised (parallel_call sis m finished) = Some (vFXTServiceFailure ?failed)"
      using r by simp
    then show ?thesis using inv ms len False by auto
  qed
qed


text \<open>
  Four nodes of which the second and the fourth fail, the fourth thread finishing first:
  all four are invoked and the one aggregate error has exactly two entries.
\<close>

theorem parallel_call_aggregates_witness:
  "mset (invoked (parallel_call four_nodes ''stop'' [3, 0, 1, 2]))
     = mset [''node-1'', ''node-2'', ''node-3'', ''node-4'']
   \<and> (\<exists>failed. raised (parallel_call four_nodes ''stop'' [3, 0, 1, 2])
                  = Some (vFXTServiceFailure failed)
          \<and> mset failed = mset [(''Failed to stop instance node-2'', vFXTStatusFailure ''instance is busy''),
                                 (''Failed to stop instance node-4'', PyException ''timed out'')]
          \<and> length failed = 2)"
proof -
  have up: "[0 ..< length four_nodes] = [0, 1, 2, 3]"
    by (simp add: four_nodes_def upt_rec)
  have h1: "mset [3, 0, 1, 2] = mset [0 ..< length four_nodes]"
    unfolding up by simp
  have h2: "\<forall>w \<in> set four_nodes. snd w \<noteq> Some KeyboardInterrupt"
    by (simp add: four_nodes_def)
  have f: "filter (\<lambda>w. snd w \<noteq> None) four_nodes
      = [(''node-2'', Some (vFXTStatusFailure ''instance is busy'')),
         (''node-4'', Some (PyException ''timed out''))]"
    by (simp add: four_nodes_def)
  have m: "map fst four_nodes = [''node-1'', ''node-2'', ''node-3'', ''node-4'']"
    by (simp add: four_nodes_def)
  from parallel_call_aggregates [OF h1 h2, of "''stop''"]
  show ?thesis unfolding f m by (simp add: numeral_2_eq_2)
qed

subsection \<open>Activities\<close>

lemma poll_activity_unsettled:
  "map_of response ''state'' \<noteq> Some ''success'' \<Longrightarrow>
   map_of response ''status'' \<noteq> Some ''failure'' \<Longrightarrow>
   poll_activity msg k (replicate n (Inr response)) = Pending"
  by (induction n arbitrary: k) simp_all

text \<open>
  Claim C5 on the loop of \<^verbatim>\<open>add_nodes\<close> that it cites: an activity whose \<^verbatim>\<open>state\<close> is
  \<^verbatim>\<open>failure\<close>, with a \<^verbatim>\<open>status\<close> text that says why, neither ends the loop nor raises,
  however many polls see it, because the loop looks for \<^verbatim>\<open>failure\<close> in the field
  \<^verbatim>\<open>status\<close>. The loop of \<^verbatim>\<open>attach_bucket\<close> raises at the first such answer, with the
  status text in its message, as the claim says.
\<close>

theorem extend_activity_failed_state_pending:
  "extend_cluster_activity ''4e2f''
      (replicate n (Inr [(''id'', ''4e2f''), (''state'', ''failure''),
                         (''status'', ''address range in use'')])) = Pending
   \<and> attach_bucket_activity ''cloudfiler'' ''4e2f'' 600
      (Inr [(''id'', ''4e2f''), (''state'', ''failure''),
            (''status'', ''address range in use'')] # rs)
     = Raised 1 (vFXTConfigurationException
         ''Failed to create corefiler cloudfiler: address range in use'')"
proof -
  have "poll_activity ''Failed to extend cluster addresses'' 0
      (replicate n (Inr [(''id'', ''4e2f''), (''state'', ''failure''),
                         (''status'', ''address range in use'')])) = Pending"
    by (rule poll_activity_unsettled) simp_all
  then show ?thesis
    by (simp add: extend_cluster_activity_def attach_bucket_activity_def uncaught_def)
qed

subsection \<open>Configuration text\<close>

lemma str_int_small: "str_int 1 = ''1''" "str_int 2 = ''2''" "str_int 3 = ''3''"
  by (simp_all add: str_int_def digit_char_def)

lemma server_lines_eq:
  "server_lines servs =
     unlines [''server1='' @ server_or_empty servs 0, ''server2='' @ server_or_empty servs 1,
              ''server3='' @ server_or_empty servs 2]"
proof -
  have "[0 ..< 3] = [0, 1, 2::nat]" by (simp add: upt_rec)
  then show ?thesis
    by (simp add: server_lines_def unlines_def server_or_empty_def str_int_small)
qed

lemma unlines_append: "unlines (xs @ ys) = unlines xs @ unlines ys"
  by (simp add: unlines_def)

lemma unlines_Cons: "unlines (x # xs) = x @ [newline] @ unlines xs"
  by (simp add: unlines_def)

lemma unlines_Nil: "unlines [] = []"
  by (simp add: unlines_def)

text \<open>
  Claim C7, as the code has it. With management address, netmask and both ends of the
  cluster range set, \<^verbatim>\<open>cluster_config(joining=False)\<close> is the template of section 6 with
  one empty line between \<^verbatim>\<open>domain=\<close> and \<^verbatim>\<open>[ntp]\<close>, every line ended by a newline and
  the server lines left empty where fewer than three servers are configured;
  \<^verbatim>\<open>cluster_config(joining=True)\<close> is the header line, \<^verbatim>\<open>[basic]\<close>, \<^verbatim>\<open>join cluster=\<close> with
  the management address (the address of the first node when joining by instance address)
  and \<^verbatim>\<open>expiration=\<close> with the time stamp.
\<close>

theorem cluster_config_text:
  "(truthy (mgmt_ip self) \<and> truthy (mgmt_netmask self) \<and> truthy (cluster_ip_start self)
      \<and> truthy (cluster_ip_end self) \<longrightarrow>
      cluster_config self svc False expiration now =
        Inr (unlines (config_lines (fmt (cname self)) (fmt (admin_password self))
               (str_int (now + (if expiration \<noteq> 0 then expiration else 7200)))
               (fmt (mgmt_ip self)) (fmt (mgmt_netmask self)) (default_router svc)
               (fmt (cluster_ip_start self)) (fmt (cluster_ip_end self))
               (dns_servers svc) (ntp_servers svc))))
   \<and> cluster_config self svc True expiration now =
        Inr (unlines [''# cluster.cfg'', ''[basic]'',
               ''join cluster='' @ (if node_ips self \<noteq> [] \<and> \<not> join_mgmt self
                                   then hd (node_ips self) else fmt (mgmt_ip self)),
               ''expiration='' @ str_int (now + (if expiration \<noteq> 0 then expiration else 7200))])"
  by (simp add: cluster_config_def Let_def config_lines_def template_lines_def server_lines_eq
      unlines_Cons unlines_Nil CONFIGURATION_EXPIRATION_def)

text \<open>
  Claim C7 as stated fails: the text that the code produces for the example is not the
  template filled in, with or without a newline after its last line; it has the empty
  line before \<^verbatim>\<open>[ntp]\<close>.
\<close>

theorem cluster_config_blank_line_counterexample:
  "cluster_config example_cluster example_service False 7200 1500000000
     \<noteq> Inr (unlines (template_lines ''mycluster'' ''adminpass'' ''1500007200'' ''10.1.0.10''
                ''255.255.255.0'' ''10.1.0.1'' ''10.1.0.20'' ''10.1.0.29''
                [''10.1.0.2'', ''10.1.0.3''] [''10.1.0.4'']))
   \<and> cluster_config example_cluster example_service False 7200 1500000000
     \<noteq> Inr (butlast (unlines (template_lines ''mycluster'' ''adminpass'' ''1500007200''
                ''10.1.0.10'' ''255.255.255.0'' ''10.1.0.1'' ''10.1.0.20'' ''10.1.0.29''
                [''10.1.0.2'', ''10.1.0.3''] [''10.1.0.4''])))
   \<and> cluster_config example_cluster example_service False 7200 1500000000
     = Inr (unlines (config_lines ''mycluster'' ''adminpass'' ''1500007200'' ''10.1.0.10''
                ''255.255.255.0'' ''10.1.0.1'' ''10.1.0.20'' ''10.1.0.29''
                [''10.1.0.2'', ''10.1.0.3''] [''10.1.0.4'']))"
  by (simp add: cluster_config_def Let_def example_cluster_def example_service_def
      config_lines_def template_lines_def server_lines_eq server_or_empty_def truthy_def fmt_def
      unlines_Cons unlines_Nil CONFIGURATION_EXPIRATION_def str_int_def digit_char_def)

text \<open>The text for a cluster with two DNS servers and one NTP server.\<close>

theorem cluster_config_text_witness:
  "cluster_config example_cluster example_service False 7200 1500000000 =
     Inr (unlines
       [''# cluster.cfg'', ''[basic]'', ''cluster name=mycluster'', ''password=adminpass'',
        ''expiration=1500007200'', ''[management network]'', ''address=10.1.0.10'',
        ''netmask=255.255.255.0'', ''default router=10.1.0.1'', ''[cluster network]'',
        ''first address=10.1.0.20'', ''last address=10.1.0.29'', ''[dns]'',
        ''server1=10.1.0.2'', ''server2=10.1.0.3'', ''server3='', ''domain='', [],
        ''[ntp]'', ''server1=10.1.0.4'', ''server2='', ''server3=''])"
proof -
  have h: "truthy (mgmt_ip example_cluster) \<and> truthy (mgmt_netmask example_cluster)
      \<and> truthy (cluster_ip_start example_cluster) \<and> truthy (cluster_ip_end example_cluster)"
    by (simp add: example_cluster_def truthy_def)
  have e: "str_int (1500000000 + (if (7200::int) \<noteq> 0 then 7200 else 7200)) = ''1500007200''"
    by (simp add: str_int_def digit_char_def)
  from cluster_config_text [of example_cluster example_service 7200 1500000000] h
  have "cluster_config example_cluster example_service False 7200 1500000000 =
        Inr (unlines (config_lines (fmt (cname example_cluster)) (fmt (admin_password example_cluster))
               (str_int (1500000000 + (if (7200::int) \<noteq> 0 then 7200 else 7200)))
               (fmt (mgmt_ip example_cluster)) (fmt (mgmt_netmask example_cluster))
               (default_router example_service)
               (fmt (cluster_ip_start example_cluster)) (fmt (cluster_ip_end example_cluster))
               (dns_servers example_service) (ntp_servers example_service)))"
    by blast
  then show ?thesis
    unfolding e
    by (simp add: example_cluster_def example_service_def config_lines_def template_lines_def
        server_or_empty_def fmt_def)
qed

subsection \<open>Failures of create and add-nodes\<close>

lemma undo_one_trace:
  assumes "fault env c = None" "removal_settles env c"
    and "\<And>w. requests (f w) = requests w \<and> logged (f w) = logged w"
  shows "\<exists>w'. undo_one env c msg f w = (Ok (), w') \<and> requests w' = requests w @ [c]
           \<and> logged w' = logged w @ (if removal_fails env c then [ErrorText msg] else [])"
  using assms
  by (auto simp: undo_one_def removal_settles_def removal_fails_def Let_def request_def
      log_error_def)

lemma undo_matching_trace:
  assumes "calm env" "\<forall>c. removal_settles env c"
    and "\<And>r w. requests (f r w) = requests w \<and> logged (f r w) = logged w"
    and "\<And>r. is_removal (call r) \<and> undo_message (call r) = ErrorText msg"
  shows "\<exists>w' cs. undo_matching env call msg f a rs w = (Ok (), w') \<and> list_all is_removal cs
           \<and> requests w' = requests w @ cs
           \<and> logged w' = logged w @ map undo_message (filter (removal_fails env) cs)"
proof (induction rs arbitrary: w)
  case Nil
  have "undo_matching env call msg f a [] w = (Ok (), w) \<and> list_all is_removal []
      \<and> requests w = requests w @ []
      \<and> logged w = logged w @ map undo_message (filter (removal_fails env) [])"
    by simp
  then show ?case by blast
next
  case (Cons r rs)
  show ?case
  proof (cases "firstIP r = firstIP a \<and> lastIP r = lastIP a")
    case True
    have "fault env (call r) = None" using assms(1) by (simp add: calm_def)
    moreover have "removal_settles env (call r)" using assms(2) by simp
    ultimately obtain w1 where one: "undo_one env (call r) msg (f r) w = (Ok (), w1)"
      and r1: "requests w1 = requests w @ [call r]"
      and l1: "logged w1 = logged w @ (if removal_fails env (call r) then [ErrorText msg] else [])"
      using undo_one_trace [of env "call r" "f r" msg w] assms(3) by blast
    from Cons.IH [of w1] obtain w' cs where
      rest: "undo_matching env call msg f a rs w1 = (Ok (), w')" and rem: "list_all is_removal cs"
      and r2: "requests w' = requests w1 @ cs"
      and l2: "logged w' = logged w1 @ map undo_message (filter (removal_fails env) cs)"
      by blast
    have "undo_matching env call msg f a (r # rs) w = (Ok (), w')"
      using True one rest by simp
    moreover have "list_all is_removal (call r # cs)" using rem assms(4) by simp
    moreover have "requests w' = requests w @ (call r # cs)" using r1 r2 by simp
    moreover have "logged w' = logged w @ map undo_message (filter (removal_fails env) (call r # cs))"
      using l1 l2 assms(4) by simp
    ultimately show ?thesis by blast
  next
    case False
    then have "undo_matching env call msg f a (r # rs) w = undo_matching env call msg f a rs w"
      by auto
    then show ?thesis using Cons.IH [of w] by simp
  qed
qed

lemma undo_vservers_trace:
  assumes "calm env" "\<forall>c. removal_settles env c"
  shows "\<exists>w' cs. undo_vservers env a vs w = (Ok (), w') \<and> list_all is_removal cs
           \<and> requests w' = requests w @ cs
           \<and> logged w' = logged w @ map undo_message (filter (removal_fails env) cs)"
proof (induction vs arbitrary: w)
  case Nil
  have "undo_vservers env a [] w = (Ok (), w) \<and> list_all is_removal []
      \<and> requests w = requests w @ []
      \<and> logged w = logged w @ map undo_message (filter (removal_fails env) [])"
    by simp
  then show ?case by blast
next
  case (Cons v vs)
  have f: "fault env (VserverGet v) = None" using assms(1) by (simp add: calm_def)
  obtain w1 cs1 where
    one: "undo_matching env (\<lambda>r. RemoveClientIPs v (rname r)) ''Failed to undo vserver extension''
       (\<lambda>r. remove_client_range v (rname r)) a (client_ranges w v) w = (Ok (), w1)"
    and rem1: "list_all is_removal cs1"
    and r1: "requests w1 = requests w @ cs1"
    and l1: "logged w1 = logged w @ map undo_message (filter (removal_fails env) cs1)"
    using undo_matching_trace [OF assms, of "\<lambda>r. remove_client_range v (rname r)"
        "\<lambda>r. RemoveClientIPs v (rname r)" "''Failed to undo vserver extension''" a
        "client_ranges w v" w]
    by (auto simp: remove_client_range_def)
  from Cons.IH [of w1] obtain w' cs where
    rest: "undo_vservers env a vs w1 = (Ok (), w')" and rem: "list_all is_removal cs"
    and r2: "requests w' = requests w1 @ cs"
    and l2: "logged w' = logged w1 @ map undo_message (filter (removal_fails env) cs)"
    by blast
  have "undo_vservers env a (v # vs) w = (Ok (), w')" using f one rest by simp
  moreover have "list_all is_removal (cs1 @ cs)" using rem1 rem by simp
  moreover have "requests w' = requests w @ (cs1 @ cs)" using r1 r2 by simp
  moreover have "logged w' = logged w @ map undo_message (filter (removal_fails env) (cs1 @ cs))"
    using l1 l2 by simp
  ultimately show ?case by blast
qed

lemma undo_entry_trace:
  assumes "calm env" "\<forall>c. removal_settles env c"
  shows "\<exists>w' cs. undo_entry env x w = (Ok (), w') \<and> list_all is_removal cs
           \<and> requests w' = requests w @ cs
           \<and> logged w' = logged w @ map undo_message (filter (removal_fails env) cs)"
proof (cases x)
  case (ClusterExt a)
  have f: "fault env ClusterGet = None" using assms(1) by (simp add: calm_def)
  have "\<exists>w' cs. undo_matching env (\<lambda>r. RemoveClusterIPs (rname r))
       ''Failed to undo cluster extension'' (\<lambda>r. remove_cluster_range (rname r)) a (clusterIPs w) w
         = (Ok (), w') \<and> list_all is_removal cs \<and> requests w' = requests w @ cs
       \<and> logged w' = logged w @ map undo_message (filter (removal_fails env) cs)"
    by (rule undo_matching_trace [OF assms]) (simp_all add: remove_cluster_range_def)
  then show ?thesis using ClusterExt f by (simp add: undo_entry_def)
next
  case (VserverExt a)
  have f: "fault env VserverList = None" using assms(1) by (simp add: calm_def)
  show ?thesis using VserverExt f undo_vservers_trace [OF assms, of a "map fst (vservers w)" w]
    by (simp add: undo_entry_def)
qed

lemma undo_added_trace:
  assumes "calm env" "\<forall>c. removal_settles env c"
  shows "\<exists>w' cs. undo_added env xs w = (Ok (), w') \<and> list_all is_removal cs
           \<and> requests w' = requests w @ cs
           \<and> logged w' = logged w @ map undo_message (filter (removal_fails env) cs)"
proof (induction xs arbitrary: w)
  case Nil
  have "undo_added env [] w = (Ok (), w) \<and> list_all is_removal []
      \<and> requests w = requests w @ []
      \<and> logged w = logged w @ map undo_message (filter (removal_fails env) [])"
    by simp
  then show ?case by blast
next
  case (Cons x xs)
  obtain w1 cs1 where one: "undo_entry env x w = (Ok (), w1)" and rem1: "list_all is_removal cs1"
    and r1: "requests w1 = requests w @ cs1"
    and l1: "logged w1 = logged w @ map undo_message (filter (removal_fails env) cs1)"
    using undo_entry_trace [OF assms, of x w] by blast
  from Cons.IH [of w1] obtain w' cs where
    rest: "undo_added env xs w1 = (Ok (), w')" and rem: "list_all is_removal cs"
    and r2: "requests w' = requests w1 @ cs"
    and l2: "logged w' = logged w1 @ map undo_message (filter (removal_fails env) cs)"
    by blast
  have "undo_added env (x # xs) w = (Ok (), w')" using one rest by simp
  moreover have "list_all is_removal (cs1 @ cs)" using rem1 rem by simp
  moreover have "requests w' = requests w @ (cs1 @ cs)" using r1 r2 by simp
  moreover have "logged w' = logged w @ map undo_message (filter (removal_fails env) (cs1 @ cs))"
    using l1 l2 by simp
  ultimately show ?case by blast
qed

lemma logged_fold_log_error: "logged (fold log_error ls w) = logged w @ ls"
  by (induction ls arbitrary: w) (simp_all add: log_error_def)

lemma requests_fold_log_error: "requests (fold log_error ls w) = requests w"
  by (induction ls arbitrary: w) (simp_all add: log_error_def)

lemma thread_logs:
  "concat (map (thread_log ''destroy'') (map (\<lambda>i. (i, destroy_node env i)) ns))
     = map (\<lambda>i. ErrorWith (''Failed to destroy '' @ i @ '': '') (the (destroy_node env i)))
         (filter (destroy_raises env) ns)"
  by (induction ns) (auto simp: thread_log_def destroy_raises_def split: option.splits)

lemma thread_failures:
  "concat (map (thread_cb ''destroy'') (map (\<lambda>i. (i, destroy_node env i)) ns))
     = map (\<lambda>i. (''Failed to destroy instance '' @ i, the (destroy_node env i)))
         (filter (destroy_raises env) ns)"
  by (induction ns) (auto simp: thread_cb_def destroy_raises_def split: option.splits)

lemma parallel_call_in_order:
  "raised (parallel_call calls method [0 ..< length calls])
     = (if concat (map (thread_cb method) calls) \<noteq> []
        then Some (vFXTServiceFailure (concat (map (thread_cb method) calls))) else None)"
proof -
  have "map (\<lambda>i. thread_cb method (calls ! i)) [0 ..< length calls] = map (thread_cb method) calls"
    by (rule nth_equalityI) simp_all
  then show ?thesis by (simp add: parallel_call_def Let_def)
qed

lemma destroy_unjoined_trace:
  "requests (destroy_unjoined env w)
     = requests w @ (if unjoined_nodes env = [] then [] else [DestroyNodes (unjoined_nodes env)])
   \<and> logged (destroy_unjoined env w) = logged w @ destroy_errors env"
proof (cases "unjoined_nodes env = []")
  case True
  then show ?thesis by (simp add: destroy_unjoined_def destroy_errors_def)
next
  case False
  show ?thesis
    unfolding destroy_unjoined_def destroy_errors_def Let_def parallel_call_in_order
      thread_logs thread_failures
    using False
    by (simp add: logged_fold_log_error requests_fold_log_error log_error_def request_def)
qed

lemma handle_failure_trace:
  assumes "\<not> skip_cleanup env" "calm env" "\<forall>c. removal_settles env c"
  shows "\<exists>w' cs. handle_failure env cnt e xs w = (Throws (vFXTCreateFailure e), w')
     \<and> list_all is_removal cs
     \<and> requests w' = requests w
         @ (if unjoined_nodes env = [] then [] else [DestroyNodes (unjoined_nodes env)]) @ cs
     \<and> logged w' = logged w @ [ErrorOf e] @ destroy_errors env
         @ map undo_message (filter (removal_fails env) cs)"
proof -
  have f: "fault env c = None" for c using assms(2) by (simp add: calm_def)
  let ?w0 = "log_error (ErrorOf e) w"
  let ?w1 = "destroy_unjoined env ?w0"
  let ?unjoined = "symmetric_difference (expected_nodes env) (joined_nodes env)"
  have r1: "requests ?w1 = requests w
      @ (if unjoined_nodes env = [] then [] else [DestroyNodes (unjoined_nodes env)])"
    and l1: "logged ?w1 = logged w @ [ErrorOf e] @ destroy_errors env"
    using destroy_unjoined_trace [of env ?w0] by (simp_all add: log_error_def)
  obtain w2 cs where u: "(if int (length ?unjoined) = cnt
       then undo_added env xs ?w1 else (Ok (), ?w1)) = (Ok (), w2)"
    and rem: "list_all is_removal cs"
    and r2: "requests w2 = requests ?w1 @ cs"
    and l2: "logged w2 = logged ?w1 @ map undo_message (filter (removal_fails env) cs)"
  proof (cases "int (length ?unjoined) = cnt")
    case True
    then show ?thesis using undo_added_trace [OF assms(2,3), of xs ?w1] that by auto
  next
    case False
    then show ?thesis using that [of ?w1 "[]"] by simp
  qed
  have "handle_failure env cnt e xs w = (Throws (vFXTCreateFailure e), w2)"
    unfolding handle_failure_def Let_def u using assms(1) by (simp add: f)
  moreover have "requests w2 = requests w
      @ (if unjoined_nodes env = [] then [] else [DestroyNodes (unjoined_nodes env)]) @ cs"
    using r1 r2 by simp
  moreover have "logged w2 = logged w @ [ErrorOf e] @ destroy_errors env
      @ map undo_message (filter (removal_fails env) cs)"
    using l1 l2 by simp
  ultimately show ?thesis using rem by blast
qed

lemma create_final_phase:
  "reaches_checks env \<Longrightarrow> service_checks env = None \<Longrightarrow> nodes_join env = None \<Longrightarrow>
   final_phase env = Some e \<Longrightarrow> cleanup_call env = None \<Longrightarrow>
   create env = \<lparr> cleanup = [cleanup_action_of env], ending = Inl (vFXTCreateFailure e) \<rparr>"
  by (auto simp: create_def reaches_checks_def cleanup_call_def cleanup_action_of_def
      cleanup_then_raise_def)

lemma create_service_checks:
  "reaches_checks env \<Longrightarrow> service_checks env = Some e \<Longrightarrow> cleanup_call env = None \<Longrightarrow>
   create env = \<lparr> cleanup = [cleanup_action_of env], ending = Inl e \<rparr>"
  by (auto simp: create_def reaches_checks_def cleanup_call_def cleanup_action_of_def
      cleanup_then_raise_def)

lemma create_nodes_join:
  "reaches_checks env \<Longrightarrow> service_checks env = None \<Longrightarrow> nodes_join env = Some e \<Longrightarrow>
   cleanup_call env = None \<Longrightarrow>
   create env = \<lparr> cleanup = [cleanup_action_of env], ending = Inl e \<rparr>"
  by (auto simp: create_def reaches_checks_def cleanup_call_def cleanup_action_of_def
      cleanup_then_raise_def)

lemma add_nodes_skip_cleanup:
  "prepare_addresses env cnt w = (Ok l, w1) \<Longrightarrow> node_phase env = Some e \<Longrightarrow>
   skip_cleanup env \<Longrightarrow> fault env TelemetryCall = None \<Longrightarrow>
   add_nodes env cnt w = (Throws (vFXTCreateFailure e), log_error (ErrorOf e) w1)"
  by (simp add: add_nodes_def handle_failure_def Let_def)

lemma add_nodes_cleanup:
  "prepare_addresses env cnt w = (Ok l, w1) \<Longrightarrow> node_phase env = Some e \<Longrightarrow>
   \<not> skip_cleanup env \<Longrightarrow> calm env \<Longrightarrow> \<forall>c. removal_settles env c \<Longrightarrow>
   \<exists>w2 removals. add_nodes env cnt w = (Throws (vFXTCreateFailure e), w2)
     \<and> list_all is_removal removals
     \<and> requests w2 = requests w1
         @ (if unjoined_nodes env = [] then [] else [DestroyNodes (unjoined_nodes env)]) @ removals
     \<and> logged w2 = logged w1 @ [ErrorOf e] @ destroy_errors env
         @ map undo_message (filter (removal_fails env) removals)"
  using handle_failure_trace [of env cnt e "added l" w1] by (simp add: add_nodes_def)



lemma prepare_undo_fails:
  "prepare_addresses undo_fails_env 1 example_world =
     (Ok \<lparr> avail_ips = Some [],
           added = [ClusterExt \<lparr> firstIP = 40, netmask = ''255.255.255.0'', lastIP = 40 \<rparr>,
                    VserverExt \<lparr> firstIP = 41, netmask = ''255.255.255.0'', lastIP = 41 \<rparr>] \<rparr>,
      example_extended)"
  by code_simp

lemma unjoined_undo_fails: "unjoined_nodes undo_fails_env = [''node-3'']"
  by code_simp

lemma destroy_errors_undo_fails:
  "destroy_errors undo_fails_env =
     [ErrorWith ''Failed to destroy node-3: '' (PyException ''instance is locked''),
      ErrorWith ''Failed to undo configuration: ''
        (vFXTServiceFailure [(''Failed to destroy instance node-3'', PyException ''instance is locked'')])]"
  by code_simp

lemma calm_undo_fails: "calm undo_fails_env"
  by (simp add: calm_def undo_fails_env_def example_env_def)

lemma settles_undo_fails: "removal_settles undo_fails_env c"
  by (cases c) (simp_all add: removal_settles_def undo_fails_env_def example_env_def)


subsection \<open>Undoing the extensions of add-nodes\<close>

text \<open>
  A preparation that comes back has applied a list of extensions, one after the other, and
  \<^verbatim>\<open>added\<close> holds their entries in that order.
\<close>

lemma extend_one_Ok:
  "extend_one env call msg applied w = (Ok u, w') \<Longrightarrow> w' = applied (request call w)"
  by (auto simp: extend_one_def Let_def split: option.splits if_splits wait_result.splits)

lemma extend_cluster_Ok:
  assumes "extend_cluster env need msk l w = (Ok l', w')"
  shows "\<exists>xs. w' = fold (extended env) xs w \<and> added l' = added l @ map entry xs
      \<and> (xs = [] \<or> (\<exists>b. xs = [OnCluster b]))"
proof (cases "need > 0")
  case False
  then have "l' = l \<and> w' = w" using assms by (simp add: extend_cluster_def)
  then have "w' = fold (extended env) [] w \<and> added l' = added l @ map entry []" by simp
  then show ?thesis by blast
next
  case True
  from assms True obtain ips b u w1 where
    b: "extend_one env (AddClusterIPs b) ''Failed to extend cluster addresses''
          (add_cluster_range env b) w = (Ok u, w1)"
    and r: "w' = w1" "added l' = added l @ [ClusterExt b]"
    by (auto simp: extend_cluster_def Let_def
        split: option.splits sum.splits prod.splits res.splits)
  from extend_one_Ok [OF b] r
  have "w' = fold (extended env) [OnCluster b] w \<and> added l' = added l @ map entry [OnCluster b]"
    by (simp add: extended_def entry_def)
  then show ?thesis by blast
qed

lemma extend_vserver_Ok:
  assumes "extend_vserver env target msk v l w = (Ok l', w')"
  shows "\<exists>xs. w' = fold (extended env) xs w \<and> added l' = added l @ map entry xs
      \<and> (xs = [] \<or> (\<exists>b. xs = [OnVserver v b]))"
proof (cases "target - int (length (range_addresses (client_ranges w v))) < 1")
  case True
  then have "l' = l \<and> w' = w"
    using assms by (simp add: extend_vserver_def Let_def split: option.splits)
  then have "w' = fold (extended env) [] w \<and> added l' = added l @ map entry []" by simp
  then show ?thesis by blast
next
  case False
  from assms False obtain b u w1 where
    b: "extend_one env (AddClientIPs v b) (''Failed to extend vserver '' @ v @ '' addresses'')
          (add_client_range env v b) w = (Ok u, w1)"
    and r: "w' = w1" "added l' = added l @ [VserverExt b]"
    by (auto simp: extend_vserver_def Let_def
        split: option.splits sum.splits prod.splits res.splits)
  from extend_one_Ok [OF b] r
  have "w' = fold (extended env) [OnVserver v b] w
      \<and> added l' = added l @ map entry [OnVserver v b]"
    by (simp add: extended_def entry_def)
  then show ?thesis by blast
qed

lemma extend_vservers_Ok:
  "extend_vservers env target msk vs l w = (Ok l', w') \<Longrightarrow>
   \<exists>xs. w' = fold (extended env) xs w \<and> added l' = added l @ map entry xs
      \<and> (distinct vs \<longrightarrow> distinct xs)
      \<and> (\<forall>x \<in> set xs. \<exists>v b. x = OnVserver v b \<and> v \<in> set vs)"
proof (induction vs arbitrary: l w)
  case Nil
  then have "w' = fold (extended env) [] w \<and> added l' = added l @ map entry []
      \<and> distinct ([]::extension list)"
    by simp
  then show ?case by fastforce
next
  case (Cons v vs)
  from Cons.prems(1) obtain l1 w1 where
    one: "extend_vserver env target msk v l w = (Ok l1, w1)"
    and rest: "extend_vservers env target msk vs l1 w1 = (Ok l', w')"
    by (auto split: prod.splits res.splits)
  from extend_vserver_Ok [OF one] obtain ys where
    ys: "w1 = fold (extended env) ys w" "added l1 = added l @ map entry ys"
        "ys = [] \<or> (\<exists>b. ys = [OnVserver v b])"
    by blast
  from Cons.IH [OF rest] obtain xs where
    xs: "w' = fold (extended env) xs w1" "added l' = added l1 @ map entry xs"
        "distinct vs \<longrightarrow> distinct xs"
        "\<forall>x \<in> set xs. \<exists>v b. x = OnVserver v b \<and> v \<in> set vs"
    by blast
  have notin: "v \<notin> set vs \<Longrightarrow> OnVserver v b \<notin> set xs" for b using xs(4) by auto
  have "w' = fold (extended env) (ys @ xs) w
      \<and> added l' = added l @ map entry (ys @ xs)
      \<and> (distinct (v # vs) \<longrightarrow> distinct (ys @ xs))
      \<and> (\<forall>x \<in> set (ys @ xs). \<exists>v' b'. x = OnVserver v' b' \<and> v' \<in> set (v # vs))"
    using xs ys notin by auto
  then show ?case by blast
qed


lemma names_extended [simp]:
  "map fst (vservers (extended env x w)) = map fst (vservers w)"
  by (cases x)
    (auto simp: extended_def add_cluster_range_def add_client_range_def request_def
      split: prod.splits)

lemma names_fold_extended [simp]:
  "map fst (vservers (fold (extended env) xs w)) = map fst (vservers w)"
  by (induction xs arbitrary: w) simp_all

lemma known_target_fold [simp]:
  "known_target (fold (extended env) xs w) x = known_target w x"
proof -
  have "fst ` set (vservers (fold (extended env) xs w)) = fst ` set (vservers w)"
    by (metis names_fold_extended set_map)
  then show ?thesis by (cases x) simp_all
qed

lemma apply_addresses_Ok:
  assumes "apply_addresses env target needs msk l0 w = (Ok l, w1)"
  shows "\<exists>xs. w1 = fold (extended env) xs w \<and> added l = added l0 @ map entry xs
      \<and> (distinct (map fst (vservers w)) \<longrightarrow> distinct xs)
      \<and> (\<forall>x \<in> set xs. known_target w x)"
proof -
  from assms obtain lc wc where
    c: "extend_cluster env (need_cluster needs) msk l0 w = (Ok lc, wc)"
    by (auto simp: apply_addresses_def split: prod.splits res.splits)
  from extend_cluster_Ok [OF c] obtain ys where
    ys: "wc = fold (extended env) ys w" "added lc = added l0 @ map entry ys"
        "ys = [] \<or> (\<exists>b. ys = [OnCluster b])"
    by auto
  have names: "map fst (vservers wc) = map fst (vservers w)" using ys(1) by simp
  show ?thesis
  proof (cases "need_vserver needs > 0")
    case False
    then have "l = lc \<and> w1 = wc" using assms c by (simp add: apply_addresses_def)
    then have "w1 = fold (extended env) ys w \<and> added l = added l0 @ map entry ys
      \<and> distinct ys \<and> (\<forall>x \<in> set ys. known_target w x)"
      using ys by auto
    then show ?thesis by blast
  next
    case True
    then have "extend_vservers env target msk (map fst (vservers wc)) lc wc = (Ok l, w1)"
      using assms c by (simp add: apply_addresses_def split: option.splits)
    from extend_vservers_Ok [OF this] obtain xs where
      xs: "w1 = fold (extended env) xs wc" "added l = added lc @ map entry xs"
          "distinct (map fst (vservers wc)) \<longrightarrow> distinct xs"
          "\<forall>x \<in> set xs. \<exists>v b. x = OnVserver v b \<and> v \<in> set (map fst (vservers wc))"
      by blast
    have "w1 = fold (extended env) (ys @ xs) w \<and> added l = added l0 @ map entry (ys @ xs)
      \<and> (distinct (map fst (vservers w)) \<longrightarrow> distinct (ys @ xs))
      \<and> (\<forall>x \<in> set (ys @ xs). known_target w x)"
    proof -
      have n: "fst ` set (vservers wc) = fst ` set (vservers w)"
        using names by (metis set_map)
      have k: "\<forall>x \<in> set xs. known_target w x"
      proof
        fix x assume "x \<in> set xs"
        with xs(4) obtain v b where "x = OnVserver v b" "v \<in> set (map fst (vservers wc))"
          by blast
        then show "known_target w x" using n by simp
      qed
      have d: "distinct (map fst (vservers w)) \<longrightarrow> distinct (ys @ xs)"
        using xs(3,4) ys(3) names by auto
      show ?thesis using xs(1,2) ys k d by auto
    qed
    then show ?thesis by blast
  qed
qed

lemma extend_ranges_Ok:
  assumes "extend_ranges env target needs w = (Ok l, w1)"
  shows "\<exists>xs. w1 = fold (extended env) xs w \<and> added l = map entry xs
      \<and> (distinct (map fst (vservers w)) \<longrightarrow> distinct xs)
      \<and> (\<forall>x \<in> set xs. known_target w x)"
proof (cases "ip_count needs > 0")
  case False
  then have "w1 = fold (extended env) [] w \<and> added l = map entry []"
    using assms by (auto simp: extend_ranges_def)
  then show ?thesis by fastforce
next
  case True
  with assms obtain avail msk where
    "apply_addresses env target needs msk \<lparr> avail_ips = avail, added = [] \<rparr> w = (Ok l, w1)"
    by (auto simp: extend_ranges_def split: sum.splits prod.splits)
  from apply_addresses_Ok [OF this] show ?thesis by simp
qed

lemma prepare_addresses_Ok:
  assumes "prepare_addresses env cnt w = (Ok l, w1)"
  shows "\<exists>xs. w1 = fold (extended env) xs w \<and> added l = map entry xs
      \<and> (distinct (map fst (vservers w)) \<longrightarrow> distinct xs)
      \<and> (\<forall>x \<in> set xs. known_target w x)"
proof -
  from assms obtain target needs where "extend_ranges env target needs w = (Ok l, w1)"
    by (auto simp: prepare_addresses_def Let_def split: option.splits if_splits)
  then show ?thesis by (rule extend_ranges_Ok)
qed

text \<open>What the management plane holds after a list of extensions, and of removals.\<close>

lemma extended_simps [simp]:
  "clusterIPs (extended env (OnCluster b) w) = clusterIPs w @ [named env b]"
  "vservers (extended env (OnCluster b) w) = vservers w"
  "clusterIPs (extended env (OnVserver v b) w) = clusterIPs w"
  "vservers (extended env (OnVserver v b) w) =
     map (\<lambda>(u, rs). if u = v then (u, rs @ [named env b]) else (u, rs)) (vservers w)"
  "mgmtIP (extended env x w) = mgmtIP w"
  "requests (extended env x w) = requests w @ [add_request x]"
  "logged (extended env x w) = logged w"
  by (cases x; simp add: extended_def add_cluster_range_def add_client_range_def request_def
      add_request_def)+

lemma reduced_simps [simp]:
  "clusterIPs (reduced env (OnCluster b) w) = filter (\<lambda>r. rname r \<noteq> range_name env b) (clusterIPs w)"
  "vservers (reduced env (OnCluster b) w) = vservers w"
  "clusterIPs (reduced env (OnVserver v b) w) = clusterIPs w"
  "vservers (reduced env (OnVserver v b) w) =
     map (\<lambda>(u, rs). if u = v then (u, filter (\<lambda>r. rname r \<noteq> range_name env b) rs) else (u, rs))
       (vservers w)"
  "mgmtIP (reduced env x w) = mgmtIP w"
  "requests (reduced env x w) = requests w @ [remove_request env x]"
  "logged (reduced env x w) = logged w"
  by (cases x; simp add: reduced_def remove_cluster_range_def remove_client_range_def request_def
      remove_request_def)+

lemma clusterIPs_fold_extended:
  "clusterIPs (fold (extended env) xs w) = clusterIPs w @ map (named env) (cluster_bodies xs)"
  by (induction xs arbitrary: w rule: cluster_bodies.induct) simp_all

lemma vservers_fold_extended:
  "vservers (fold (extended env) xs w) =
     map (\<lambda>(u, rs). (u, rs @ map (named env) (vserver_bodies u xs))) (vservers w)"
proof (induction xs arbitrary: w rule: cluster_bodies.induct)
  case 1
  then show ?case by simp
next
  case (2 b xs)
  then show ?case by simp
next
  case (3 v b xs)
  then show ?case by (auto simp: case_prod_unfold)
qed

lemma clusterIPs_fold_reduced:
  "clusterIPs (fold (reduced env) xs w) =
     filter (\<lambda>r. rname r \<notin> range_name env ` set (cluster_bodies xs)) (clusterIPs w)"
  by (induction xs arbitrary: w rule: cluster_bodies.induct) (simp_all add: conj_commute)

lemma vservers_fold_reduced:
  "vservers (fold (reduced env) xs w) =
     map (\<lambda>(u, rs). (u, filter (\<lambda>r. rname r \<notin> range_name env ` set (vserver_bodies u xs)) rs))
       (vservers w)"
proof (induction xs arbitrary: w rule: cluster_bodies.induct)
  case 1
  then show ?case by simp
next
  case (2 b xs)
  then show ?case by simp
next
  case (3 v b xs)
  then show ?case by (auto simp: case_prod_unfold conj_commute)
qed

lemma others_fold_extended [simp]:
  "mgmtIP (fold (extended env) xs w) = mgmtIP w"
  "requests (fold (extended env) xs w) = requests w @ map add_request xs"
  "logged (fold (extended env) xs w) = logged w"
  by (induction xs arbitrary: w) simp_all

lemma others_fold_reduced [simp]:
  "mgmtIP (fold (reduced env) xs w) = mgmtIP w"
  "requests (fold (reduced env) xs w) = requests w @ map (remove_request env) xs"
  "logged (fold (reduced env) xs w) = logged w"
  by (induction xs arbitrary: w) simp_all

text \<open>
  When every removal succeeds and no call raises, the undoing of an entry whose range is
  shown, in a world without two ranges of the same bounds, asks for that one removal.
\<close>

lemma named_simps [simp]:
  "rname (named env b) = range_name env b"
  "firstIP (named env b) = firstIP b" "lastIP (named env b) = lastIP b"
  "bounds (named env b) = bounds b"
  by (simp_all add: named_def bounds_def)

lemma named_inject: "named env b = named env b' \<Longrightarrow> b = b'"
  by (cases b; cases b') (simp add: named_def)

lemma undo_one_succeeds:
  "fault env c = None \<Longrightarrow> removal_succeeds env c \<Longrightarrow>
   undo_one env c msg f w = (Ok (), f (request c w))"
  by (auto simp: undo_one_def removal_succeeds_def Let_def)

lemma undo_matching_succeeds:
  "calm env \<Longrightarrow> \<forall>c. removal_succeeds env c \<Longrightarrow>
   undo_matching env call msg f a rs w =
     (Ok (), fold (\<lambda>r w. f r (request (call r) w))
                (filter (\<lambda>r. firstIP r = firstIP a \<and> lastIP r = lastIP a) rs) w)"
proof (induction rs arbitrary: w)
  case Nil
  then show ?case by simp
next
  case (Cons r rs)
  have "undo_one env (call r) msg (f r) w = (Ok (), f r (request (call r) w))"
    using Cons.prems by (simp add: undo_one_succeeds calm_def)
  then show ?case using Cons.IH [OF Cons.prems] by simp
qed

lemma unique_match:
  "distinct (map bounds rs) \<Longrightarrow> r \<in> set rs \<Longrightarrow> bounds r = bounds a \<Longrightarrow>
   filter (\<lambda>r'. firstIP r' = firstIP a \<and> lastIP r' = lastIP a) rs = [r]"
proof (induction rs)
  case Nil
  then show ?case by simp
next
  case (Cons q rs)
  show ?case
  proof (cases "q = r")
    case True
    have "\<forall>r' \<in> set rs. \<not> (firstIP r' = firstIP a \<and> lastIP r' = lastIP a)"
    proof
      fix r' assume "r' \<in> set rs"
      then have "bounds r' \<noteq> bounds q" using Cons.prems(1) by simp (metis image_eqI)
      then show "\<not> (firstIP r' = firstIP a \<and> lastIP r' = lastIP a)"
        using True Cons.prems(3) by (auto simp: bounds_def)
    qed
    then have "filter (\<lambda>r'. firstIP r' = firstIP a \<and> lastIP r' = lastIP a) rs = []"
      by simp
    then show ?thesis using True Cons.prems(3) by (simp add: bounds_def)
  next
    case False
    then have r: "r \<in> set rs" using Cons.prems(2) by simp
    then have "bounds q \<noteq> bounds r" using Cons.prems(1) by simp (metis image_eqI)
    then have "\<not> (firstIP q = firstIP a \<and> lastIP q = lastIP a)"
      using Cons.prems(3) by (auto simp: bounds_def)
    then show ?thesis using Cons.IH r Cons.prems(1,3) by simp
  qed
qed

lemma undo_cluster_entry:
  assumes "calm env" "\<forall>c. removal_succeeds env c"
    and "distinct (map bounds (clusterIPs w))" "named env b \<in> set (clusterIPs w)"
  shows "undo_entry env (ClusterExt b) w = (Ok (), reduced env (OnCluster b) w)"
proof -
  have m: "filter (\<lambda>r'. firstIP r' = firstIP b \<and> lastIP r' = lastIP b) (clusterIPs w)
      = [named env b]"
    using unique_match [OF assms(3,4), of b] by simp
  show ?thesis
    using assms(1)
    by (simp add: undo_entry_def calm_def undo_matching_succeeds [OF assms(1,2)] m reduced_def)
qed

lemma map_of_cond_map:
  "map_of (map (\<lambda>(u, rs). if u = v then (u, f rs) else (u, rs)) xs) k =
     (if k = v then map_option f (map_of xs k) else map_of xs k)"
  by (induction xs) auto

lemma client_ranges_reduced:
  "client_ranges (reduced env (OnVserver v b) w) u =
     (if u = v then filter (\<lambda>r. rname r \<noteq> range_name env b) (client_ranges w u)
      else client_ranges w u)"
  "client_ranges (reduced env (OnCluster b) w) u = client_ranges w u"
  by (auto simp: client_ranges_def map_of_cond_map split: option.splits)

lemma client_ranges_request [simp]: "client_ranges (request c w) u = client_ranges w u"
  by (simp add: client_ranges_def request_def)

lemma undo_vservers_no_match:
  "calm env \<Longrightarrow> \<forall>c. removal_succeeds env c \<Longrightarrow>
   \<forall>u \<in> set vs. \<forall>r \<in> set (client_ranges w u). bounds r \<noteq> bounds a \<Longrightarrow>
   undo_vservers env a vs w = (Ok (), w)"
proof (induction vs)
  case Nil
  then show ?case by simp
next
  case (Cons u vs)
  have "filter (\<lambda>r. firstIP r = firstIP a \<and> lastIP r = lastIP a) (client_ranges w u) = []"
    using Cons.prems(3) by (auto simp: bounds_def filter_empty_conv)
  then show ?case
    using Cons by (simp add: undo_matching_succeeds calm_def)
qed

lemma undo_vservers_one_match:
  assumes "calm env" "\<forall>c. removal_succeeds env c"
  shows "distinct vs \<Longrightarrow>
   \<forall>u \<in> set vs. u \<noteq> v \<longrightarrow> (\<forall>r \<in> set (client_ranges w u). bounds r \<noteq> bounds b) \<Longrightarrow>
   distinct (map bounds (client_ranges w v)) \<Longrightarrow> named env b \<in> set (client_ranges w v) \<Longrightarrow>
   undo_vservers env b vs w
     = (Ok (), if v \<in> set vs then reduced env (OnVserver v b) w else w)"
proof (induction vs)
  case Nil
  then show ?case by simp
next
  case (Cons u vs)
  have f: "fault env c = None" for c using assms(1) by (simp add: calm_def)
  show ?case
  proof (cases "u = v")
    case True
    have m: "filter (\<lambda>r'. firstIP r' = firstIP b \<and> lastIP r' = lastIP b) (client_ranges w v)
        = [named env b]"
      using unique_match [OF Cons.prems(3,4), of b] by simp
    let ?w' = "reduced env (OnVserver v b) w"
    have step: "undo_matching env (\<lambda>r. RemoveClientIPs v (rname r))
        ''Failed to undo vserver extension'' (\<lambda>r. remove_client_range v (rname r)) b
        (client_ranges w v) w = (Ok (), ?w')"
      by (simp add: undo_matching_succeeds [OF assms] m reduced_def)
    have "\<forall>u' \<in> set vs. \<forall>r \<in> set (client_ranges ?w' u'). bounds r \<noteq> bounds b"
      using Cons.prems(1,2) True by (auto simp: client_ranges_reduced)
    then have "undo_vservers env b vs ?w' = (Ok (), ?w')"
      using undo_vservers_no_match [OF assms] by blast
    then show ?thesis using True step f by simp
  next
    case False
    have "filter (\<lambda>r. firstIP r = firstIP b \<and> lastIP r = lastIP b) (client_ranges w u) = []"
      using Cons.prems(2) False by (auto simp: bounds_def filter_empty_conv)
    then have step: "undo_matching env (\<lambda>r. RemoveClientIPs u (rname r))
        ''Failed to undo vserver extension'' (\<lambda>r. remove_client_range u (rname r)) b
        (client_ranges w u) w = (Ok (), w)"
      by (simp add: undo_matching_succeeds [OF assms])
    have "undo_vservers env b vs w
     = (Ok (), if v \<in> set vs then reduced env (OnVserver v b) w else w)"
      using Cons.IH Cons.prems by simp
    then show ?thesis using False step f by simp
  qed
qed

lemma concat_part_distinct:
  "distinct (concat (map f xs)) \<Longrightarrow> a \<in> set xs \<Longrightarrow> distinct (f a)"
  by (induction xs) auto

lemma concat_parts_disjoint:
  "distinct (concat (map f xs)) \<Longrightarrow> distinct (map g xs) \<Longrightarrow> a \<in> set xs \<Longrightarrow> b \<in> set xs \<Longrightarrow>
   g a \<noteq> g b \<Longrightarrow> set (f a) \<inter> set (f b) = {}"
  by (induction xs) auto

lemma client_ranges_entry:
  "distinct (map fst (vservers w)) \<Longrightarrow> (v, rs) \<in> set (vservers w) \<Longrightarrow> client_ranges w v = rs"
  by (simp add: client_ranges_def)

lemma client_ranges_member:
  assumes "distinct (map fst (vservers w))" "v \<in> fst ` set (vservers w)"
  shows "(v, client_ranges w v) \<in> set (vservers w)"
proof -
  from assms(2) obtain rs where "(v, rs) \<in> set (vservers w)" by auto
  then show ?thesis using client_ranges_entry [OF assms(1)] by simp
qed

lemma client_ranges_unknown:
  "v \<notin> fst ` set (vservers w) \<Longrightarrow> client_ranges w v = []"
  using map_of_eq_None_iff [of "vservers w" v] by (simp add: client_ranges_def)

lemma unambiguous_client_names:
  assumes "unambiguous w"
  shows "distinct (map rname (client_ranges w v))"
proof (cases "v \<in> fst ` set (vservers w)")
  case True
  have "(v, client_ranges w v) \<in> set (vservers w)"
    using client_ranges_member True assms by (simp add: unambiguous_def)
  then show ?thesis using assms by (auto simp: unambiguous_def list_all_iff)
next
  case False
  then show ?thesis by (simp add: client_ranges_unknown)
qed

lemma unambiguous_client_bounds:
  assumes "unambiguous w"
  shows "distinct (map bounds (client_ranges w v))"
proof (cases "v \<in> fst ` set (vservers w)")
  case True
  have m: "(v, client_ranges w v) \<in> set (vservers w)"
    using client_ranges_member True assms by (simp add: unambiguous_def)
  have "distinct (concat (map (\<lambda>v. map bounds (snd v)) (vservers w)))"
    using assms by (simp add: unambiguous_def)
  from concat_part_distinct [OF this m] show ?thesis by simp
next
  case False
  then show ?thesis by (simp add: client_ranges_unknown)
qed

lemma unambiguous_other_bounds:
  assumes "unambiguous w" "u \<noteq> v" "r \<in> set (client_ranges w u)" "r' \<in> set (client_ranges w v)"
  shows "bounds r \<noteq> bounds r'"
proof -
  have d: "distinct (map fst (vservers w))" using assms(1) by (simp add: unambiguous_def)
  have u: "u \<in> fst ` set (vservers w)" using assms(3) client_ranges_unknown [of u w] by force
  have v: "v \<in> fst ` set (vservers w)" using assms(4) client_ranges_unknown [of v w] by force
  have mu: "(u, client_ranges w u) \<in> set (vservers w)" by (rule client_ranges_member [OF d u])
  have mv: "(v, client_ranges w v) \<in> set (vservers w)" by (rule client_ranges_member [OF d v])
  have c: "distinct (concat (map (\<lambda>v. map bounds (snd v)) (vservers w)))"
    using assms(1) by (simp add: unambiguous_def)
  have "set (map bounds (snd (u, client_ranges w u)))
      \<inter> set (map bounds (snd (v, client_ranges w v))) = {}"
    by (rule concat_parts_disjoint [OF c d mu mv]) (simp add: assms(2))
  then show ?thesis using assms(3,4) by auto
qed

lemma undo_vserver_entry:
  assumes "calm env" "\<forall>c. removal_succeeds env c" "unambiguous w"
    and "present env w (OnVserver v b)"
  shows "undo_entry env (VserverExt b) w = (Ok (), reduced env (OnVserver v b) w)"
proof -
  have d: "distinct (map fst (vservers w))" using assms(3) by (simp add: unambiguous_def)
  have v: "v \<in> set (map fst (vservers w))" and n: "named env b \<in> set (client_ranges w v)"
    using assms(4) by simp_all
  have o: "\<forall>u \<in> set (map fst (vservers w)). u \<noteq> v \<longrightarrow>
      (\<forall>r \<in> set (client_ranges w u). bounds r \<noteq> bounds b)"
    using unambiguous_other_bounds [OF assms(3) _ _ n] by auto
  have "undo_vservers env b (map fst (vservers w)) w
      = (Ok (), if v \<in> set (map fst (vservers w)) then reduced env (OnVserver v b) w else w)"
    by (rule undo_vservers_one_match [OF assms(1,2) d o unambiguous_client_bounds [OF assms(3)] n])
  then show ?thesis using v assms(1) by (simp add: undo_entry_def calm_def)
qed

lemma undo_entry_present:
  assumes "calm env" "\<forall>c. removal_succeeds env c" "unambiguous w" "present env w x"
  shows "undo_entry env (entry x) w = (Ok (), reduced env x w)"
proof (cases x)
  case (OnCluster b)
  then show ?thesis
    using undo_cluster_entry [OF assms(1,2), of w b] assms(3,4)
    by (simp add: entry_def unambiguous_def)
next
  case (OnVserver v b)
  then show ?thesis
    using undo_vserver_entry [OF assms(1,2,3), of v b] assms(4) by (simp add: entry_def)
qed

lemma concat_shrunk_distinct:
  assumes "\<And>x. set (f (h x)) \<subseteq> set (f x)" "\<And>x. distinct (f x) \<Longrightarrow> distinct (f (h x))"
  shows "distinct (concat (map f xs)) \<Longrightarrow> distinct (concat (map f (map h xs)))"
proof (induction xs)
  case Nil
  then show ?case by simp
next
  case (Cons x xs)
  from Cons.prems have d: "distinct (f x)" and r: "distinct (concat (map f xs))"
    and i: "set (f x) \<inter> (\<Union>y \<in> set xs. set (f y)) = {}"
    by simp_all
  have "set (f (h x)) \<inter> (\<Union>y \<in> set xs. set (f (h y))) = {}"
    using i assms(1) by blast
  then show ?case using assms(2) [OF d] Cons.IH [OF r] by simp
qed

lemma unambiguous_reduced:
  assumes "unambiguous w"
  shows "unambiguous (reduced env x w)"
proof (cases x)
  case (OnCluster b)
  then show ?thesis using assms by (simp add: unambiguous_def distinct_map_filter)
next
  case (OnVserver v b)
  let ?h = "\<lambda>(u, rs). if u = v then (u, filter (\<lambda>r. rname r \<noteq> range_name env b) rs) else (u, rs)"
  have n: "map fst (map ?h xs) = map fst xs" for xs :: "(string \<times> ip_range list) list"
    by (induction xs) (auto simp: case_prod_unfold)
  have la: "list_all (\<lambda>v. distinct (map rname (snd v))) xs \<Longrightarrow>
      list_all (\<lambda>v. distinct (map rname (snd v))) (map ?h xs)"
    for xs :: "(string \<times> ip_range list) list"
    by (induction xs) (auto simp: distinct_map_filter)
  have cc: "distinct (concat (map (\<lambda>v. map bounds (snd v)) xs)) \<Longrightarrow>
      distinct (concat (map (\<lambda>v. map bounds (snd v)) (map ?h xs)))"
    for xs :: "(string \<times> ip_range list) list"
    by (rule concat_shrunk_distinct) (auto simp: distinct_map_filter split: if_splits)
  have 1: "distinct (map fst (map ?h (vservers w)))"
    using assms unfolding n by (simp add: unambiguous_def)
  have 2: "list_all (\<lambda>v. distinct (map rname (snd v))) (map ?h (vservers w))"
    using assms la by (simp add: unambiguous_def)
  have 3: "distinct (concat (map (\<lambda>v. map bounds (snd v)) (map ?h (vservers w))))"
    using assms cc by (simp add: unambiguous_def)
  have 4: "distinct (map rname (clusterIPs w)) \<and> distinct (map bounds (clusterIPs w))"
    using assms by (simp add: unambiguous_def)
  show ?thesis
    unfolding OnVserver unambiguous_def reduced_simps using 1 2 3 4 by blast
qed

lemma distinct_names_differ:
  assumes "distinct (map rname rs)" "named env b \<in> set rs" "named env b' \<in> set rs" "b \<noteq> b'"
  shows "range_name env b' \<noteq> range_name env b"
proof
  assume eq: "range_name env b' = range_name env b"
  have inj: "inj_on rname (set rs)" using assms(1) by (simp add: distinct_map)
  have "rname (named env b') = rname (named env b)" using eq by simp
  from inj_onD [OF inj this assms(3,2)] have "named env b' = named env b" .
  then show False using assms(4) named_inject by blast
qed

lemma names_reduced:
  "fst ` set (vservers (reduced env x w)) = fst ` set (vservers w)"
proof -
  have "map fst (vservers (reduced env x w)) = map fst (vservers w)"
    by (cases x) (auto simp: case_prod_unfold)
  then show ?thesis by (metis set_map)
qed

lemma present_vserver_reduced:
  assumes "v' \<in> fst ` set (vservers w)"
    and "named env b' \<in> set (client_ranges (reduced env x w) v')"
  shows "present env (reduced env x w) (OnVserver v' b')"
proof -
  have "v' \<in> fst ` set (vservers (reduced env x w))"
    using assms(1) by (simp only: names_reduced)
  then show ?thesis using assms(2) by (simp only: present.simps simp_thms)
qed

lemma present_reduced:
  assumes "unambiguous w" "present env w x" "present env w y" "x \<noteq> y"
  shows "present env (reduced env x w) y"
proof (cases x)
  case xc: (OnCluster b)
  show ?thesis
  proof (cases y)
    case (OnCluster b')
    have "range_name env b' \<noteq> range_name env b"
      using distinct_names_differ [of "clusterIPs w" env b b'] assms xc OnCluster
      by (auto simp: unambiguous_def)
    then show ?thesis using assms(3) xc OnCluster by simp
  next
    case (OnVserver v' b')
    have "named env b' \<in> set (client_ranges (reduced env x w) v')"
      using assms(3) xc OnVserver by (simp add: client_ranges_reduced)
    then show ?thesis
      unfolding OnVserver using assms(3) OnVserver by (intro present_vserver_reduced) simp_all
  qed
next
  case xv: (OnVserver v b)
  show ?thesis
  proof (cases y)
    case (OnCluster b')
    then show ?thesis using assms(3) xv by simp
  next
    case (OnVserver v' b')
    have "named env b' \<in> set (client_ranges (reduced env x w) v')"
    proof (cases "v' = v")
      case True
      have "range_name env b' \<noteq> range_name env b"
        using distinct_names_differ [of "client_ranges w v" env b b']
          unambiguous_client_names [OF assms(1), of v] assms(2,3,4) xv OnVserver True
        by auto
      then show ?thesis using assms(3) xv OnVserver True by (simp add: client_ranges_reduced)
    next
      case False
      then show ?thesis using assms(3) xv OnVserver by (simp add: client_ranges_reduced)
    qed
    then show ?thesis
      unfolding OnVserver using assms(3) OnVserver by (intro present_vserver_reduced) simp_all
  qed
qed

lemma undo_added_reduces:
  assumes "calm env" "\<forall>c. removal_succeeds env c"
  shows "unambiguous w \<Longrightarrow> distinct xs \<Longrightarrow> \<forall>x \<in> set xs. present env w x \<Longrightarrow>
   undo_added env (map entry xs) w = (Ok (), fold (reduced env) xs w)"
proof (induction xs arbitrary: w)
  case Nil
  then show ?case by simp
next
  case (Cons x xs)
  have one: "undo_entry env (entry x) w = (Ok (), reduced env x w)"
    using undo_entry_present [OF assms Cons.prems(1)] Cons.prems(3) by simp
  have u: "unambiguous (reduced env x w)" by (rule unambiguous_reduced [OF Cons.prems(1)])
  have p: "\<forall>y \<in> set xs. present env (reduced env x w) y"
  proof
    fix y assume y: "y \<in> set xs"
    then have "x \<noteq> y" using Cons.prems(2) by auto
    then show "present env (reduced env x w) y"
      using present_reduced [OF Cons.prems(1), of env x y] Cons.prems(3) y by simp
  qed
  have "undo_added env (map entry xs) (reduced env x w)
      = (Ok (), fold (reduced env) xs (reduced env x w))"
    using Cons.IH [OF u _ p] Cons.prems(2) by simp
  then show ?case using one by simp
qed

lemma bodies_member:
  "OnCluster b \<in> set xs \<Longrightarrow> b \<in> set (cluster_bodies xs)"
  "OnVserver v b \<in> set xs \<Longrightarrow> b \<in> set (vserver_bodies v xs)"
  by (induction xs rule: cluster_bodies.induct) auto

lemma map_of_map_snd:
  "map_of (map (\<lambda>(u, rs). (u, g u rs)) xs) v = map_option (g v) (map_of xs v)"
  by (induction xs) auto

lemma client_ranges_fold_extended:
  "v \<in> fst ` set (vservers w) \<Longrightarrow>
   client_ranges (fold (extended env) xs w) v
     = client_ranges w v @ map (named env) (vserver_bodies v xs)"
proof -
  assume "v \<in> fst ` set (vservers w)"
  then obtain rs where "map_of (vservers w) v = Some rs"
    using map_of_eq_None_iff [of "vservers w" v] by auto
  then show ?thesis
    by (simp add: client_ranges_def vservers_fold_extended map_of_map_snd)
qed

lemma present_fold_extended:
  assumes "known_target w x" "x \<in> set xs"
  shows "present env (fold (extended env) xs w) x"
proof (cases x)
  case (OnCluster b)
  then show ?thesis using assms(2) bodies_member(1) by (simp add: clusterIPs_fold_extended)
next
  case (OnVserver v b)
  have v: "v \<in> fst ` set (vservers w)" using assms(1) OnVserver by simp
  have "fst ` set (vservers (fold (extended env) xs w)) = fst ` set (vservers w)"
    by (metis names_fold_extended set_map)
  then show ?thesis
    using OnVserver assms(2) bodies_member(2) v by (simp add: client_ranges_fold_extended)
qed

lemma restore_list:
  "distinct (map rname (rs @ map (named env) bs)) \<Longrightarrow>
   filter (\<lambda>r. rname r \<notin> range_name env ` set bs) (rs @ map (named env) bs) = rs"
proof -
  assume d: "distinct (map rname (rs @ map (named env) bs))"
  have "\<forall>r \<in> set rs. rname r \<notin> range_name env ` set bs"
  proof
    fix r assume "r \<in> set rs"
    then have "rname r \<notin> rname ` set (map (named env) bs)" using d by auto
    moreover have "rname ` set (map (named env) bs) = range_name env ` set bs" by force
    ultimately show "rname r \<notin> range_name env ` set bs" by simp
  qed
  then have "filter (\<lambda>r. rname r \<notin> range_name env ` set bs) rs = rs" by (simp add: filter_id_conv)
  moreover have "filter (\<lambda>r. rname r \<notin> range_name env ` set bs) (map (named env) bs) = []"
    by (simp add: filter_empty_conv)
  ultimately show ?thesis by simp
qed

lemma restore_vservers:
  "list_all (\<lambda>v. distinct (map rname (snd v)))
     (map (\<lambda>(u, rs). (u, rs @ map (named env) (bs u))) xs) \<Longrightarrow>
   map (\<lambda>(u, rs). (u, filter (\<lambda>r. rname r \<notin> range_name env ` set (bs u)) rs))
     (map (\<lambda>(u, rs). (u, rs @ map (named env) (bs u))) xs) = xs"
proof (induction xs)
  case Nil
  then show ?case by simp
next
  case (Cons x xs)
  obtain u rs where x: "x = (u, rs)" by (cases x)
  from Cons.prems have "distinct (map rname (rs @ map (named env) (bs u)))"
    by (simp add: x)
  from restore_list [OF this] show ?case using Cons x by simp
qed

lemma ranges_restored:
  assumes "unambiguous (fold (extended env) xs w)"
  shows "clusterIPs (fold (reduced env) xs (fold (extended env) xs w)) = clusterIPs w"
    and "vservers (fold (reduced env) xs (fold (extended env) xs w)) = vservers w"
proof -
  have "distinct (map rname (clusterIPs w @ map (named env) (cluster_bodies xs)))"
    using assms by (simp add: unambiguous_def clusterIPs_fold_extended)
  from restore_list [OF this]
  show "clusterIPs (fold (reduced env) xs (fold (extended env) xs w)) = clusterIPs w"
    by (simp add: clusterIPs_fold_reduced clusterIPs_fold_extended)
  have "list_all (\<lambda>v. distinct (map rname (snd v)))
     (map (\<lambda>(u, rs). (u, rs @ map (named env) (vserver_bodies u xs))) (vservers w))"
    using assms by (simp only: unambiguous_def vservers_fold_extended)
  from restore_vservers [OF this]
  show "vservers (fold (reduced env) xs (fold (extended env) xs w)) = vservers w"
    by (simp only: vservers_fold_reduced vservers_fold_extended)
qed

lemma ranges_log_error [simp]:
  "clusterIPs (log_error m w) = clusterIPs w" "vservers (log_error m w) = vservers w"
  "mgmtIP (log_error m w) = mgmtIP w"
  by (simp_all add: log_error_def)

lemma ranges_fold_log_error [simp]:
  "clusterIPs (fold log_error ls w) = clusterIPs w" "vservers (fold log_error ls w) = vservers w"
  "mgmtIP (fold log_error ls w) = mgmtIP w"
  by (induction ls arbitrary: w) simp_all

lemma ranges_request [simp]:
  "clusterIPs (request c w) = clusterIPs w" "vservers (request c w) = vservers w"
  "mgmtIP (request c w) = mgmtIP w"
  by (simp_all add: request_def)

lemma ranges_destroy_unjoined [simp]:
  "clusterIPs (destroy_unjoined env w) = clusterIPs w"
  "vservers (destroy_unjoined env w) = vservers w"
  "mgmtIP (destroy_unjoined env w) = mgmtIP w"
  by (simp_all add: destroy_unjoined_def Let_def split: option.splits)

lemma unambiguous_cong:
  "clusterIPs w' = clusterIPs w \<Longrightarrow> vservers w' = vservers w \<Longrightarrow> unambiguous w' = unambiguous w"
  by (simp add: unambiguous_def)

lemma present_cong:
  "clusterIPs w' = clusterIPs w \<Longrightarrow> vservers w' = vservers w \<Longrightarrow>
   present env w' x = present env w x"
  by (cases x) (simp_all add: client_ranges_def)

lemma in_use_addresses_cong:
  "clusterIPs w' = clusterIPs w \<Longrightarrow> vservers w' = vservers w \<Longrightarrow> mgmtIP w' = mgmtIP w \<Longrightarrow>
   in_use_addresses category w' = in_use_addresses category w"
  by (simp add: in_use_addresses_def)

lemma ranges_restored_from:
  assumes "unambiguous (fold (extended env) xs w)"
    and "clusterIPs w' = clusterIPs (fold (extended env) xs w)"
    and "vservers w' = vservers (fold (extended env) xs w)"
  shows "clusterIPs (fold (reduced env) xs w') = clusterIPs w"
    and "vservers (fold (reduced env) xs w') = vservers w"
proof -
  have "clusterIPs (fold (reduced env) xs w')
      = clusterIPs (fold (reduced env) xs (fold (extended env) xs w))"
    by (simp only: clusterIPs_fold_reduced assms(2))
  then show "clusterIPs (fold (reduced env) xs w') = clusterIPs w"
    using ranges_restored(1) [OF assms(1)] by simp
  have "vservers (fold (reduced env) xs w')
      = vservers (fold (reduced env) xs (fold (extended env) xs w))"
    by (simp only: vservers_fold_reduced assms(3))
  then show "vservers (fold (reduced env) xs w') = vservers w"
    using ranges_restored(2) [OF assms(1)] by simp
qed


lemma prepare_example:
  "prepare_addresses example_env 1 example_world =
     (Ok \<lparr> avail_ips = Some [],
           added = [ClusterExt \<lparr> firstIP = 40, netmask = ''255.255.255.0'', lastIP = 40 \<rparr>,
                    VserverExt \<lparr> firstIP = 41, netmask = ''255.255.255.0'', lastIP = 41 \<rparr>] \<rparr>,
      example_extended)"
  by code_simp

lemma calm_example: "calm example_env"
  by (simp add: calm_def example_env_def)

lemma succeeds_example: "removal_succeeds example_env c"
  by (simp add: removal_succeeds_def example_env_def)

lemma unambiguous_example: "unambiguous example_extended"
  by (simp add: unambiguous_def example_extended_def bounds_def)

lemma unjoined_example:
  "int (length (symmetric_difference (expected_nodes example_env) (joined_nodes example_env))) = 1"
  by (simp add: symmetric_difference_def example_env_def)

lemma unjoined_nodes_example: "unjoined_nodes example_env = [''node-3'']"
  by code_simp

lemma destroy_errors_example: "destroy_errors example_env = []"
  by code_simp



end
